theory Spec2Isabelle
  imports Main
begin

section \<open>Data model\<close>

text \<open>
  The flash-sale backend keeps its durable data in two PostgreSQL tables
  (\<^verbatim>\<open>flash_sale\<close> and \<^verbatim>\<open>orders\<close>, declared in the schema next to
  \<^verbatim>\<open>db/postgres.js\<close>) and its fast data in Redis (one integer stock key per
  sale, one mark key per sale and user; \<^verbatim>\<open>services/redis.js\<close>).

  Instants are milliseconds since the epoch, as JavaScript's \<^verbatim>\<open>Date\<close> compares them.
\<close>

type_synonym instant = int

datatype order_status = Status_SUCCESS | Status_FAILED

record sale =
  sale_name :: string
  start_time :: instant
  end_time :: instant
  total_stock :: int

record order =
  order_id :: int
  user_id :: string
  sale_id :: int
  status :: order_status
  created_at :: instant

text \<open>
  The whole shared state. \<open>sales\<close>, \<open>orders\<close> and the \<^verbatim>\<open>SERIAL\<close> sequence of order ids are
  PostgreSQL; \<open>stock\<close> and \<open>marks\<close> are Redis. A Redis key
  \<^verbatim>\<open>sale:stock:<saleId>\<close> is the entry \<open>stock s saleId\<close>, and a key
  \<^verbatim>\<open>sale:user:<saleId>:<userId>\<close> is the membership \<open>(saleId, userId) \<in> marks s\<close>
  (user ids written by the purchase route match \<^verbatim>\<open>[a-zA-Z0-9_-]+\<close>, so the key
  determines the pair). The 24 hour expiry of a mark key is an event of the environment
  (\<open>ExpireMark\<close> below), not a field.
\<close>

record store =
  sales :: "int \<rightharpoonup> sale"
  orders :: "order list"
  order_seq :: int
  stock :: "int \<rightharpoonup> int"
  marks :: "(int \<times> string) set"

text \<open>
  Every call to PostgreSQL or Redis can throw. \<open>UniqueViolation\<close> is SQLSTATE 23505
  (constraint \<^verbatim>\<open>unique_user_sale\<close>), \<open>ForeignKeyViolation\<close> is 23503 (the
  reference from \<^verbatim>\<open>orders.sale_id\<close>), \<open>CheckViolation\<close> is 23514
  (\<^verbatim>\<open>total_stock >= 0\<close>); \<open>DbError\<close> and \<open>RedisError\<close> are every other failure
  of the respective service (connectivity, timeouts).
\<close>

datatype err = RedisError | DbError | UniqueViolation | ForeignKeyViolation | CheckViolation

section \<open>Redis operations (services/redis.js)\<close>

text \<open>
  Each operation takes a flag \<open>fault\<close>: when it is set the call throws and Redis is
  unchanged. \<^verbatim>\<open>DECR\<close> and \<^verbatim>\<open>INCR\<close> read a missing key as 0.
\<close>

definition stock_value :: "store \<Rightarrow> int \<Rightarrow> int" where
  "stock_value s saleId = (case stock s saleId of None \<Rightarrow> 0 | Some v \<Rightarrow> v)"

definition initializeStock :: "bool \<Rightarrow> int \<Rightarrow> int \<Rightarrow> store \<Rightarrow> err + store" where
  "initializeStock fault saleId n s =
     (if fault then Inl RedisError else Inr (s\<lparr>stock := (stock s)(saleId \<mapsto> n)\<rparr>))"

definition getStock :: "bool \<Rightarrow> int \<Rightarrow> store \<Rightarrow> err + int option" where
  "getStock fault saleId s = (if fault then Inl RedisError else Inr (stock s saleId))"

definition redis_hasUserPurchased :: "bool \<Rightarrow> int \<Rightarrow> string \<Rightarrow> store \<Rightarrow> err + bool" where
  "redis_hasUserPurchased fault saleId userId s =
     (if fault then Inl RedisError else Inr ((saleId, userId) \<in> marks s))"

definition markUserPurchased :: "bool \<Rightarrow> int \<Rightarrow> string \<Rightarrow> store \<Rightarrow> err + store" where
  "markUserPurchased fault saleId userId s =
     (if fault then Inl RedisError else Inr (s\<lparr>marks := insert (saleId, userId) (marks s)\<rparr>))"

definition removeUserPurchaseMark :: "bool \<Rightarrow> int \<Rightarrow> string \<Rightarrow> store \<Rightarrow> err + store" where
  "removeUserPurchaseMark fault saleId userId s =
     (if fault then Inl RedisError else Inr (s\<lparr>marks := marks s - {(saleId, userId)}\<rparr>))"

definition decrementStock :: "bool \<Rightarrow> int \<Rightarrow> store \<Rightarrow> err + (int \<times> store)" where
  "decrementStock fault saleId s =
     (if fault then Inl RedisError
      else let n = stock_value s saleId - 1
           in Inr (n, s\<lparr>stock := (stock s)(saleId \<mapsto> n)\<rparr>))"

definition incrementStock :: "bool \<Rightarrow> int \<Rightarrow> store \<Rightarrow> err + (int \<times> store)" where
  "incrementStock fault saleId s =
     (if fault then Inl RedisError
      else let n = stock_value s saleId + 1
           in Inr (n, s\<lparr>stock := (stock s)(saleId \<mapsto> n)\<rparr>))"

text \<open>The three calls of \<^verbatim>\<open>resetSaleKeys\<close>: \<^verbatim>\<open>DEL\<close> of the stock key,
  \<^verbatim>\<open>KEYS sale:user:<saleId>:*\<close>, and \<^verbatim>\<open>DEL\<close> of the keys found.\<close>

definition redis_del_stock :: "bool \<Rightarrow> int \<Rightarrow> store \<Rightarrow> err + store" where
  "redis_del_stock fault saleId s =
     (if fault then Inl RedisError else Inr (s\<lparr>stock := (stock s)(saleId := None)\<rparr>))"

definition redis_keys :: "bool \<Rightarrow> int \<Rightarrow> store \<Rightarrow> err + (int \<times> string) set" where
  "redis_keys fault saleId s =
     (if fault then Inl RedisError else Inr {k \<in> marks s. fst k = saleId})"

definition redis_del_keys :: "bool \<Rightarrow> (int \<times> string) set \<Rightarrow> store \<Rightarrow> err + store" where
  "redis_del_keys fault ks s =
     (if fault then Inl RedisError else Inr (s\<lparr>marks := marks s - ks\<rparr>))"

section \<open>PostgreSQL operations\<close>

definition order_key :: "order \<Rightarrow> string \<times> int" where
  "order_key x = (user_id x, sale_id x)"

text \<open>The table constraint \<^verbatim>\<open>unique_user_sale UNIQUE (user_id, sale_id)\<close>.\<close>

definition unique_user_sale :: "order list \<Rightarrow> bool" where
  "unique_user_sale os = distinct (map order_key os)"

definition success_orders :: "store \<Rightarrow> int \<Rightarrow> order list" where
  "success_orders s saleId =
     filter (\<lambda>x. sale_id x = saleId \<and> status x = Status_SUCCESS) (orders s)"

definition count_success :: "store \<Rightarrow> int \<Rightarrow> int" where
  "count_success s saleId = int (length (success_orders s saleId))"

definition getSaleById :: "bool \<Rightarrow> int \<Rightarrow> store \<Rightarrow> err + sale option" where
  "getSaleById fault saleId s = (if fault then Inl DbError else Inr (sales s saleId))"

text \<open>The query of \<^verbatim>\<open>hasUserPurchased\<close> in purchase.js:
  \<^verbatim>\<open>SELECT id FROM orders WHERE sale_id = $1 AND user_id = $2 AND status = 'SUCCESS' LIMIT 1\<close>.\<close>

definition db_hasUserPurchased :: "bool \<Rightarrow> int \<Rightarrow> string \<Rightarrow> store \<Rightarrow> err + bool" where
  "db_hasUserPurchased fault saleId userId s =
     (if fault then Inl DbError
      else Inr (filter (\<lambda>x. sale_id x = saleId \<and> user_id x = userId \<and> status x = Status_SUCCESS)
                  (orders s) \<noteq> []))"

text \<open>\<^verbatim>\<open>ORDER BY created_at DESC LIMIT 1\<close>: a row with the greatest \<open>created_at\<close>.
  SQL leaves the choice among equal instants open; the model takes the first in table
  order.\<close>

fun latest :: "order list \<Rightarrow> order option" where
  "latest [] = None"
| "latest (x # xs) =
     (case latest xs of
        None \<Rightarrow> Some x
      | Some y \<Rightarrow> if created_at x < created_at y then Some y else Some x)"

definition getUserPurchase :: "bool \<Rightarrow> int \<Rightarrow> string \<Rightarrow> store \<Rightarrow> err + order option" where
  "getUserPurchase fault saleId userId s =
     (if fault then Inl DbError
      else Inr (latest (filter (\<lambda>x. sale_id x = saleId \<and> user_id x = userId) (orders s))))"

text \<open>
  Lines 137 to 141 of purchase.js, \<^verbatim>\<open>BEGIN\<close>, the \<^verbatim>\<open>INSERT\<close> of \<^verbatim>\<open>createOrder\<close> and
  \<^verbatim>\<open>COMMIT\<close>, as the one atomic action that the transaction makes of them. It either
  commits the new row, or fails and leaves the table as it was. The unique index is
  checked before the foreign key. A value of the \<^verbatim>\<open>SERIAL\<close> sequence is consumed
  by every insert that reaches the table, also one that the unique index refuses.
\<close>

definition createOrder ::
  "bool \<Rightarrow> instant \<Rightarrow> int \<Rightarrow> string \<Rightarrow> order_status \<Rightarrow> store \<Rightarrow> (err + order) \<times> store" where
  "createOrder fault now saleId userId st s =
     (if fault then (Inl DbError, s)
      else if (userId, saleId) \<in> set (map order_key (orders s))
        then (Inl UniqueViolation, s\<lparr>order_seq := order_seq s + 1\<rparr>)
      else if sales s saleId = None
        then (Inl ForeignKeyViolation, s\<lparr>order_seq := order_seq s + 1\<rparr>)
      else let row = \<lparr>order_id = order_seq s, user_id = userId, sale_id = saleId,
                       status = st, created_at = now\<rparr>
           in (Inr row, s\<lparr>orders := orders s @ [row], order_seq := order_seq s + 1\<rparr>))"

definition calculateRemainingStockFromDB :: "bool \<Rightarrow> int \<Rightarrow> store \<Rightarrow> err + int" where
  "calculateRemainingStockFromDB fault saleId s =
     (if fault then Inl DbError
      else Inr (case sales s saleId of
                  None \<Rightarrow> 0
                | Some sl \<Rightarrow> max 0 (total_stock sl - count_success s saleId)))"

definition getSuccessfulUserPurchases :: "bool \<Rightarrow> int \<Rightarrow> store \<Rightarrow> err + string list" where
  "getSuccessfulUserPurchases fault saleId s =
     (if fault then Inl DbError else Inr (map user_id (success_orders s saleId)))"

text \<open>\<^verbatim>\<open>UPDATE flash_sale SET total_stock = $1 WHERE id = $2\<close>, with the column's
  \<^verbatim>\<open>CHECK (total_stock >= 0)\<close>; no row matches an unknown id, and then nothing is
  checked.\<close>

definition db_set_total_stock :: "bool \<Rightarrow> int \<Rightarrow> int \<Rightarrow> store \<Rightarrow> err + store" where
  "db_set_total_stock fault saleId n s =
     (if fault then Inl DbError
      else case sales s saleId of
             None \<Rightarrow> Inr s
           | Some sl \<Rightarrow> if n < 0 then Inl CheckViolation
                        else Inr (s\<lparr>sales := (sales s)(saleId \<mapsto> sl\<lparr>total_stock := n\<rparr>)\<rparr>))"

definition db_delete_orders :: "bool \<Rightarrow> int \<Rightarrow> store \<Rightarrow> err + store" where
  "db_delete_orders fault saleId s =
     (if fault then Inl DbError
      else Inr (s\<lparr>orders := filter (\<lambda>x. sale_id x \<noteq> saleId) (orders s)\<rparr>))"

section \<open>Sale status (services/sale.js)\<close>

datatype sale_status = UPCOMING | ACTIVE | ENDED | NOT_FOUND

fun getSaleStatus :: "instant \<Rightarrow> sale option \<Rightarrow> sale_status" where
  "getSaleStatus now None = NOT_FOUND"
| "getSaleStatus now (Some sl) =
     (if now < start_time sl then UPCOMING
      else if now \<ge> start_time sl \<and> now \<le> end_time sl then ACTIVE
      else ENDED)"

definition isSaleActive :: "instant \<Rightarrow> sale option \<Rightarrow> bool" where
  "isSaleActive now sl = (getSaleStatus now sl = ACTIVE)"

section \<open>The purchase pipeline (processPurchase in services/purchase.js)\<close>

text \<open>
  \<^verbatim>\<open>processPurchase\<close> is an \<^verbatim>\<open>async\<close> function: it runs without interruption from
  one \<^verbatim>\<open>await\<close> to the next, and other requests run in between. A request in
  flight is therefore its local variables and the \<^verbatim>\<open>await\<close> it stands at; one step
  performs the awaited call on the shared state and runs the synchronous code up to the
  next \<^verbatim>\<open>await\<close> or \<^verbatim>\<open>return\<close>. That code reads and writes local variables only
  (and the clock), so it makes no difference to the other requests whether it runs at
  once or later. A call that throws is taken to have had no effect on Redis or on the
  tables. The \<^verbatim>\<open>message\<close> strings of the responses are left out.
\<close>

datatype purchase_result =
  SUCCESS | ALREADY_PURCHASED | SOLD_OUT | SALE_NOT_ACTIVE | SALE_NOT_FOUND | ERROR

record response =
  result :: purchase_result
  placed :: "order option"
  remainingStock :: "int option"
  saleStatus :: "sale_status option"

text \<open>The awaited calls, for the record of what a request did (\<open>trace\<close>): each entry
  is the call and whether it returned (\<open>True\<close>) or threw (\<open>False\<close>).\<close>

datatype op =
  OpGetSale | OpRedisCheck | OpDbCheck | OpDecr | OpIncr | OpMark | OpUnmark
  | OpGetClient | OpTransaction | OpRollback

text \<open>The \<^verbatim>\<open>await\<close> a request stands at, by line of purchase.js:
  \<open>AtGetSale\<close> 86, \<open>AtRedisCheck\<close> 22, \<open>AtDbCheck\<close> 31, \<open>AtDecr\<close> 117,
  \<open>AtSoldOutIncr\<close> 122, \<open>AtMark\<close> 131, \<open>AtGetClient\<close> 135, \<open>AtTransaction\<close> 137 to 141,
  \<open>AtRollback\<close> 159, \<open>AtDupIncr\<close> 166, \<open>AtCatchIncr\<close> 187, \<open>AtCatchUnmark\<close> 195.\<close>

datatype pc =
  AtGetSale | AtRedisCheck | AtDbCheck | AtDecr | AtSoldOutIncr | AtMark | AtGetClient
  | AtTransaction | AtRollback | AtDupIncr | AtCatchIncr | AtCatchUnmark | Finished

record req =
  userId :: string
  saleId :: int
  pc :: pc
  stockDecremented :: bool
  userMarked :: bool
  newStock :: "int option"
  dbError :: "err option"
  response :: "response option"
  trace :: "(op \<times> bool) list"

definition new_request :: "string \<Rightarrow> int \<Rightarrow> req" where
  "new_request u sid =
     \<lparr>userId = u, saleId = sid, pc = AtGetSale, stockDecremented = False,
      userMarked = False, newStock = None, dbError = None, response = None, trace = []\<rparr>"

definition logged :: "op \<Rightarrow> bool \<Rightarrow> req \<Rightarrow> req" where
  "logged c ok r = r\<lparr>trace := trace r @ [(c, ok)]\<rparr>"

definition plain :: "purchase_result \<Rightarrow> response" where
  "plain res = \<lparr>result = res, placed = None, remainingStock = None, saleStatus = None\<rparr>"

definition reply :: "response \<Rightarrow> req \<Rightarrow> req" where
  "reply resp r = r\<lparr>pc := Finished, response := Some resp\<rparr>"

text \<open>The handler \<^verbatim>\<open>catch (error)\<close> of lines 181 to 206: it increments the stock when
  \<^verbatim>\<open>stockDecremented\<close> is set, then removes the mark when \<^verbatim>\<open>userMarked\<close> is set,
  and returns \<^verbatim>\<open>ERROR\<close>. A failure of either call is logged and swallowed.\<close>

definition catch_unmark :: "req \<Rightarrow> req" where
  "catch_unmark r = (if userMarked r then r\<lparr>pc := AtCatchUnmark\<rparr> else reply (plain ERROR) r)"

definition catch_error :: "req \<Rightarrow> req" where
  "catch_error r = (if stockDecremented r then r\<lparr>pc := AtCatchIncr\<rparr> else catch_unmark r)"

definition step_get_sale :: "bool \<Rightarrow> instant \<Rightarrow> store \<Rightarrow> req \<Rightarrow> store \<times> req" where
  "step_get_sale fault now s r =
     (case getSaleById fault (saleId r) s of
        Inl e \<Rightarrow> (s, catch_error (logged OpGetSale False r))
      | Inr None \<Rightarrow> (s, reply (plain SALE_NOT_FOUND) (logged OpGetSale True r))
      | Inr (Some sl) \<Rightarrow>
          if \<not> isSaleActive now (Some sl)
          then (s, reply ((plain SALE_NOT_ACTIVE)\<lparr>saleStatus := Some (getSaleStatus now (Some sl))\<rparr>)
                     (logged OpGetSale True r))
          else (s, (logged OpGetSale True r)\<lparr>pc := AtRedisCheck\<rparr>))"

text \<open>\<^verbatim>\<open>hasUserPurchased\<close> of purchase.js, lines 19 to 37: a Redis failure is caught
  and logged, and the database is asked whenever Redis did not answer \<^verbatim>\<open>true\<close>.\<close>

definition step_redis_check :: "bool \<Rightarrow> store \<Rightarrow> req \<Rightarrow> store \<times> req" where
  "step_redis_check fault s r =
     (case redis_hasUserPurchased fault (saleId r) (userId r) s of
        Inl e \<Rightarrow> (s, (logged OpRedisCheck False r)\<lparr>pc := AtDbCheck\<rparr>)
      | Inr b \<Rightarrow>
          if b then (s, reply (plain ALREADY_PURCHASED) (logged OpRedisCheck True r))
          else (s, (logged OpRedisCheck True r)\<lparr>pc := AtDbCheck\<rparr>))"

definition step_db_check :: "bool \<Rightarrow> store \<Rightarrow> req \<Rightarrow> store \<times> req" where
  "step_db_check fault s r =
     (case db_hasUserPurchased fault (saleId r) (userId r) s of
        Inl e \<Rightarrow> (s, catch_error (logged OpDbCheck False r))
      | Inr b \<Rightarrow>
          if b then (s, reply (plain ALREADY_PURCHASED) (logged OpDbCheck True r))
          else (s, (logged OpDbCheck True r)\<lparr>pc := AtDecr\<rparr>))"

definition step_decr :: "bool \<Rightarrow> store \<Rightarrow> req \<Rightarrow> store \<times> req" where
  "step_decr fault s r =
     (case decrementStock fault (saleId r) s of
        Inl e \<Rightarrow> (s, catch_error (logged OpDecr False r))
      | Inr (n, s') \<Rightarrow>
          let r1 = (logged OpDecr True r)\<lparr>newStock := Some n, stockDecremented := True\<rparr>
          in if n < 0 then (s', r1\<lparr>pc := AtSoldOutIncr\<rparr>) else (s', r1\<lparr>pc := AtMark\<rparr>))"

definition step_sold_out_incr :: "bool \<Rightarrow> store \<Rightarrow> req \<Rightarrow> store \<times> req" where
  "step_sold_out_incr fault s r =
     (case incrementStock fault (saleId r) s of
        Inl e \<Rightarrow> (s, catch_error (logged OpIncr False r))
      | Inr (n, s') \<Rightarrow>
          (s', reply (plain SOLD_OUT) ((logged OpIncr True r)\<lparr>stockDecremented := False\<rparr>)))"

definition step_mark :: "bool \<Rightarrow> store \<Rightarrow> req \<Rightarrow> store \<times> req" where
  "step_mark fault s r =
     (case markUserPurchased fault (saleId r) (userId r) s of
        Inl e \<Rightarrow> (s, catch_error (logged OpMark False r))
      | Inr s' \<Rightarrow> (s', (logged OpMark True r)\<lparr>userMarked := True, pc := AtGetClient\<rparr>))"

definition step_get_client :: "bool \<Rightarrow> store \<Rightarrow> req \<Rightarrow> store \<times> req" where
  "step_get_client fault s r =
     (if fault then (s, catch_error (logged OpGetClient False r))
      else (s, (logged OpGetClient True r)\<lparr>pc := AtTransaction\<rparr>))"

definition step_transaction :: "bool \<Rightarrow> instant \<Rightarrow> store \<Rightarrow> req \<Rightarrow> store \<times> req" where
  "step_transaction fault now s r =
     (case createOrder fault now (saleId r) (userId r) Status_SUCCESS s of
        (Inl e, s') \<Rightarrow> (s', (logged OpTransaction False r)\<lparr>dbError := Some e, pc := AtRollback\<rparr>)
      | (Inr row, s') \<Rightarrow>
          (s', reply \<lparr>result = SUCCESS, placed = Some row, remainingStock = newStock r,
                      saleStatus = None\<rparr>
                 (logged OpTransaction True r)))"

text \<open>The handler \<^verbatim>\<open>catch (dbError)\<close> of lines 158 to 176. A \<^verbatim>\<open>ROLLBACK\<close> that throws
  leaves the handler through \<^verbatim>\<open>finally\<close> for the outer handler.\<close>

definition step_rollback :: "bool \<Rightarrow> store \<Rightarrow> req \<Rightarrow> store \<times> req" where
  "step_rollback fault s r =
     (if fault then (s, catch_error (logged OpRollback False r))
      else let r1 = logged OpRollback True r
           in if dbError r = Some UniqueViolation
              then (if stockDecremented r then (s, r1\<lparr>pc := AtDupIncr\<rparr>)
                    else (s, reply (plain ALREADY_PURCHASED) r1))
              else (s, catch_error r1))"

definition step_dup_incr :: "bool \<Rightarrow> store \<Rightarrow> req \<Rightarrow> store \<times> req" where
  "step_dup_incr fault s r =
     (case incrementStock fault (saleId r) s of
        Inl e \<Rightarrow> (s, catch_error (logged OpIncr False r))
      | Inr (n, s') \<Rightarrow> (s', reply (plain ALREADY_PURCHASED) (logged OpIncr True r)))"

definition step_catch_incr :: "bool \<Rightarrow> store \<Rightarrow> req \<Rightarrow> store \<times> req" where
  "step_catch_incr fault s r =
     (case incrementStock fault (saleId r) s of
        Inl e \<Rightarrow> (s, catch_unmark (logged OpIncr False r))
      | Inr (n, s') \<Rightarrow> (s', catch_unmark (logged OpIncr True r)))"

definition step_catch_unmark :: "bool \<Rightarrow> store \<Rightarrow> req \<Rightarrow> store \<times> req" where
  "step_catch_unmark fault s r =
     (case removeUserPurchaseMark fault (saleId r) (userId r) s of
        Inl e \<Rightarrow> (s, reply (plain ERROR) (logged OpUnmark False r))
      | Inr s' \<Rightarrow> (s', reply (plain ERROR) (logged OpUnmark True r)))"

text \<open>One step of a request: \<open>fault\<close> says whether the awaited call throws, \<open>now\<close> is the
  clock read during the step.\<close>

definition step :: "bool \<Rightarrow> instant \<Rightarrow> store \<Rightarrow> req \<Rightarrow> store \<times> req" where
  "step fault now s r =
     (case pc r of
        AtGetSale \<Rightarrow> step_get_sale fault now s r
      | AtRedisCheck \<Rightarrow> step_redis_check fault s r
      | AtDbCheck \<Rightarrow> step_db_check fault s r
      | AtDecr \<Rightarrow> step_decr fault s r
      | AtSoldOutIncr \<Rightarrow> step_sold_out_incr fault s r
      | AtMark \<Rightarrow> step_mark fault s r
      | AtGetClient \<Rightarrow> step_get_client fault s r
      | AtTransaction \<Rightarrow> step_transaction fault now s r
      | AtRollback \<Rightarrow> step_rollback fault s r
      | AtDupIncr \<Rightarrow> step_dup_incr fault s r
      | AtCatchIncr \<Rightarrow> step_catch_incr fault s r
      | AtCatchUnmark \<Rightarrow> step_catch_unmark fault s r
      | Finished \<Rightarrow> (s, r))"

text \<open>
  A request handled alone: \<open>fails env\<close> says which awaited call throws (a request
  stands at each \<^verbatim>\<open>await\<close> at most once), \<open>clock env\<close> is the time. No path through
  \<^verbatim>\<open>processPurchase\<close> has more than eleven awaited calls, and a finished request no
  longer moves, so eleven steps run it to its \<^verbatim>\<open>return\<close>.
\<close>

record env =
  fails :: "pc \<Rightarrow> bool"
  clock :: instant

definition step_env :: "env \<Rightarrow> store \<times> req \<Rightarrow> store \<times> req" where
  "step_env e c = step (fails e (pc (snd c))) (clock e) (fst c) (snd c)"

primrec run_steps :: "nat \<Rightarrow> env \<Rightarrow> store \<times> req \<Rightarrow> store \<times> req" where
  "run_steps 0 e c = c"
| "run_steps (Suc n) e c = run_steps n e (step_env e c)"

definition processPurchase :: "env \<Rightarrow> string \<Rightarrow> int \<Rightarrow> store \<Rightarrow> store \<times> req" where
  "processPurchase e u sid s = run_steps 11 e (s, new_request u sid)"

text \<open>The number of awaited calls a request can still make.\<close>

fun rank :: "pc \<Rightarrow> nat" where
  "rank AtGetSale = 11"
| "rank AtRedisCheck = 10"
| "rank AtDbCheck = 9"
| "rank AtDecr = 8"
| "rank AtMark = 7"
| "rank AtGetClient = 6"
| "rank AtTransaction = 5"
| "rank AtRollback = 4"
| "rank AtDupIncr = 3"
| "rank AtSoldOutIncr = 3"
| "rank AtCatchIncr = 2"
| "rank AtCatchUnmark = 1"
| "rank Finished = 0"

definition no_faults :: "instant \<Rightarrow> env" where
  "no_faults now = \<lparr>fails = (\<lambda>p. False), clock = now\<rparr>"

definition faults_at :: "pc list \<Rightarrow> instant \<Rightarrow> env" where
  "faults_at ps now = \<lparr>fails = (\<lambda>p. p \<in> set ps), clock = now\<rparr>"

subsection \<open>The same function, nested as the source nests it\<close>

text \<open>
  \<open>purchase_body\<close> follows \<^verbatim>\<open>processPurchase\<close> line by line: the \<^verbatim>\<open>try\<close> block with its
  early returns, the inner \<^verbatim>\<open>catch (dbError)\<close> around the transaction (\<open>inner_catch\<close>),
  and the outer \<^verbatim>\<open>catch (error)\<close> (\<open>outer_catch\<close>), which every throw reaches with the two
  flags as they stand. \<open>hasUserPurchased\<close> is the helper of the same name: Redis first,
  inside its own \<^verbatim>\<open>try\<close>, then the database unless Redis answered true. The step machine
  above is shown below to compute exactly this function.
\<close>

definition outer_catch :: "env \<Rightarrow> store \<Rightarrow> req \<Rightarrow> store \<times> req" where
  "outer_catch e s r =
     (let (s1, r1) =
            (if stockDecremented r
             then (case incrementStock (fails e AtCatchIncr) (saleId r) s of
                     Inl rollbackError \<Rightarrow> (s, logged OpIncr False r)
                   | Inr (n, s') \<Rightarrow> (s', logged OpIncr True r))
             else (s, r));
          (s2, r2) =
            (if userMarked r
             then (case removeUserPurchaseMark (fails e AtCatchUnmark) (saleId r) (userId r) s1 of
                     Inl rollbackError \<Rightarrow> (s1, logged OpUnmark False r1)
                   | Inr s' \<Rightarrow> (s', logged OpUnmark True r1))
             else (s1, r1))
      in (s2, reply (plain ERROR) r2))"

definition inner_catch :: "env \<Rightarrow> err \<Rightarrow> store \<Rightarrow> req \<Rightarrow> store \<times> req" where
  "inner_catch e dbErr s r =
     (if fails e AtRollback then outer_catch e s (logged OpRollback False r)
      else let r1 = logged OpRollback True r
           in if dbErr = UniqueViolation
              then (if stockDecremented r
                    then (case incrementStock (fails e AtDupIncr) (saleId r) s of
                            Inl err \<Rightarrow> outer_catch e s (logged OpIncr False r1)
                          | Inr (n, s') \<Rightarrow> (s', reply (plain ALREADY_PURCHASED) (logged OpIncr True r1)))
                    else (s, reply (plain ALREADY_PURCHASED) r1))
              else outer_catch e s r1)"

definition hasUserPurchased :: "env \<Rightarrow> int \<Rightarrow> string \<Rightarrow> store \<Rightarrow> req \<Rightarrow> (err + bool) \<times> req" where
  "hasUserPurchased e sid u s r =
     (let db = (\<lambda>r1. case db_hasUserPurchased (fails e AtDbCheck) sid u s of
                        Inl err \<Rightarrow> (Inl err, logged OpDbCheck False r1)
                      | Inr b \<Rightarrow> (Inr b, logged OpDbCheck True r1))
      in case redis_hasUserPurchased (fails e AtRedisCheck) sid u s of
           Inl err \<Rightarrow> db (logged OpRedisCheck False r)
         | Inr redisPurchased \<Rightarrow>
             if redisPurchased then (Inr True, logged OpRedisCheck True r)
             else db (logged OpRedisCheck True r))"

definition purchase_body :: "env \<Rightarrow> string \<Rightarrow> int \<Rightarrow> store \<Rightarrow> store \<times> req" where
  "purchase_body e u sid s =
     (let r0 = new_request u sid in
      case getSaleById (fails e AtGetSale) sid s of
        Inl err \<Rightarrow> outer_catch e s (logged OpGetSale False r0)
      | Inr None \<Rightarrow> (s, reply (plain SALE_NOT_FOUND) (logged OpGetSale True r0))
      | Inr (Some sl) \<Rightarrow>
          if \<not> isSaleActive (clock e) (Some sl)
          then (s, reply ((plain SALE_NOT_ACTIVE)\<lparr>saleStatus := Some (getSaleStatus (clock e) (Some sl))\<rparr>)
                     (logged OpGetSale True r0))
          else
            (case hasUserPurchased e sid u s (logged OpGetSale True r0) of
               (Inl err, r1) \<Rightarrow> outer_catch e s r1
             | (Inr alreadyPurchased, r1) \<Rightarrow>
                 if alreadyPurchased then (s, reply (plain ALREADY_PURCHASED) r1)
                 else
                   (case decrementStock (fails e AtDecr) sid s of
                      Inl err \<Rightarrow> outer_catch e s (logged OpDecr False r1)
                    | Inr (n, s1) \<Rightarrow>
                        let r2 = (logged OpDecr True r1)\<lparr>newStock := Some n, stockDecremented := True\<rparr>
                        in if n < 0
                           then (case incrementStock (fails e AtSoldOutIncr) sid s1 of
                                   Inl err \<Rightarrow> outer_catch e s1 (logged OpIncr False r2)
                                 | Inr (m, s2) \<Rightarrow>
                                     (s2, reply (plain SOLD_OUT)
                                            ((logged OpIncr True r2)\<lparr>stockDecremented := False\<rparr>)))
                           else
                             (case markUserPurchased (fails e AtMark) sid u s1 of
                                Inl err \<Rightarrow> outer_catch e s1 (logged OpMark False r2)
                              | Inr s2 \<Rightarrow>
                                  let r3 = (logged OpMark True r2)\<lparr>userMarked := True\<rparr>
                                  in if fails e AtGetClient
                                     then outer_catch e s2 (logged OpGetClient False r3)
                                     else
                                       (case createOrder (fails e AtTransaction) (clock e) sid u
                                               Status_SUCCESS s2 of
                                          (Inr row, s3) \<Rightarrow>
                                            (s3, reply \<lparr>result = SUCCESS, placed = Some row,
                                                          remainingStock = Some n, saleStatus = None\<rparr>
                                                   (logged OpTransaction True (logged OpGetClient True r3)))
                                        | (Inl dbErr, s3) \<Rightarrow>
                                            inner_catch e dbErr s3
                                              ((logged OpTransaction False (logged OpGetClient True r3))
                                                 \<lparr>dbError := Some dbErr\<rparr>))))))"

section \<open>Requests in flight together\<close>

text \<open>
  Any number of requests are in flight at once, and the scheduler of the JavaScript
  runtime picks which one continues. A schedule is a list of events: a request arrives,
  the request at some index of the pool takes its next step, a mark key expires, or
  another operation of the system performs one of its writes (\<open>PutSale\<close>: any write of
  a \<^verbatim>\<open>flash_sale\<close> row, as \<^verbatim>\<open>resetSale\<close>, \<^verbatim>\<open>updateSaleTimes\<close> and \<^verbatim>\<open>createSale\<close>
  do; \<open>DeleteOrders\<close>, \<open>DelStock\<close>, \<open>DelKeys\<close>, \<open>SetStock\<close>: the writes of \<^verbatim>\<open>resetSale\<close>
  and \<^verbatim>\<open>initializeRedisStock\<close>; \<open>SetMark\<close>: the write of \<^verbatim>\<open>completeRedisRecovery\<close>).
\<close>

datatype event =
  Arrive string int
  | Run nat bool instant
  | ExpireMark int string
  | PutSale int sale
  | DeleteOrders int
  | DelStock int
  | DelKeys "(int \<times> string) set"
  | SetStock int int
  | SetMark int string

record config =
  shared :: store
  pool :: "req list"

definition keep :: "store \<Rightarrow> err + store \<Rightarrow> store" where
  "keep s x = (case x of Inl e \<Rightarrow> s | Inr s' \<Rightarrow> s')"

fun exec1 :: "event \<Rightarrow> config \<Rightarrow> config" where
  "exec1 (Arrive u sid) c = c\<lparr>pool := pool c @ [new_request u sid]\<rparr>"
| "exec1 (Run i fault now) c =
     (if i < length (pool c)
      then (case step fault now (shared c) (pool c ! i) of
              (s', r') \<Rightarrow> c\<lparr>shared := s', pool := (pool c)[i := r']\<rparr>)
      else c)"
| "exec1 (ExpireMark sid u) c =
     c\<lparr>shared := keep (shared c) (removeUserPurchaseMark False sid u (shared c))\<rparr>"
| "exec1 (PutSale sid sl) c =
     c\<lparr>shared := (shared c)\<lparr>sales := (sales (shared c))(sid \<mapsto> sl)\<rparr>\<rparr>"
| "exec1 (DeleteOrders sid) c =
     c\<lparr>shared := keep (shared c) (db_delete_orders False sid (shared c))\<rparr>"
| "exec1 (DelStock sid) c =
     c\<lparr>shared := keep (shared c) (redis_del_stock False sid (shared c))\<rparr>"
| "exec1 (DelKeys ks) c =
     c\<lparr>shared := keep (shared c) (redis_del_keys False ks (shared c))\<rparr>"
| "exec1 (SetStock sid n) c =
     c\<lparr>shared := keep (shared c) (initializeStock False sid n (shared c))\<rparr>"
| "exec1 (SetMark sid u) c =
     c\<lparr>shared := keep (shared c) (markUserPurchased False sid u (shared c))\<rparr>"

primrec exec :: "event list \<Rightarrow> config \<Rightarrow> config" where
  "exec [] c = c"
| "exec (e # es) c = exec es (exec1 e c)"

text \<open>The events of purchase traffic alone: arrivals, steps of requests, and expiry.\<close>

fun purchase_event :: "event \<Rightarrow> bool" where
  "purchase_event (Arrive u sid) = True"
| "purchase_event (Run i fault now) = True"
| "purchase_event (ExpireMark sid u) = True"
| "purchase_event e = False"

section \<open>Status, reset and recovery (services/sale.js, routes/sale.js)\<close>

text \<open>
  These functions have no handler of their own (\<^verbatim>\<open>getRemainingStock\<close> apart): a call
  that throws ends the function, with what was written so far left in place. \<open>f i\<close>
  says whether the \<open>i\<close>-th awaited call of the function throws.
\<close>

definition getRemainingStock :: "(nat \<Rightarrow> bool) \<Rightarrow> int \<Rightarrow> store \<Rightarrow> err + int" where
  "getRemainingStock f sid s =
     (case getStock (f 0) sid s of
        Inr (Some redisStock) \<Rightarrow> Inr (max 0 redisStock)
      | Inr None \<Rightarrow> calculateRemainingStockFromDB (f 1) sid s
      | Inl e \<Rightarrow> calculateRemainingStockFromDB (f 1) sid s)"

record sale_info =
  info_saleId :: int
  info_name :: string
  info_status :: sale_status
  info_remainingStock :: int
  info_totalStock :: int
  info_startTime :: instant
  info_endTime :: instant

datatype status_response = NoSale | SaleInfo sale_info

definition getSaleStatusResponse ::
  "(nat \<Rightarrow> bool) \<Rightarrow> instant \<Rightarrow> int \<Rightarrow> store \<Rightarrow> err + status_response" where
  "getSaleStatusResponse f now sid s =
     (case getSaleById (f 0) sid s of
        Inl e \<Rightarrow> Inl e
      | Inr None \<Rightarrow> Inr NoSale
      | Inr (Some sl) \<Rightarrow>
          (case getRemainingStock (\<lambda>i. f (Suc i)) sid s of
             Inl e \<Rightarrow> Inl e
           | Inr remaining \<Rightarrow>
               Inr (SaleInfo \<lparr>info_saleId = sid, info_name = sale_name sl,
                      info_status = getSaleStatus now (Some sl), info_remainingStock = remaining,
                      info_totalStock = total_stock sl, info_startTime = start_time sl,
                      info_endTime = end_time sl\<rparr>)))"

text \<open>The handler of \<^verbatim>\<open>GET /purchase/:uid\<close>: \<^verbatim>\<open>purchased\<close> and the order found.\<close>

definition get_purchase_route :: "bool \<Rightarrow> int \<Rightarrow> string \<Rightarrow> store \<Rightarrow> err + (bool \<times> order option)" where
  "get_purchase_route fault sid uid s =
     (case getUserPurchase fault sid uid s of
        Inl e \<Rightarrow> Inl e
      | Inr None \<Rightarrow> Inr (False, None)
      | Inr (Some purchase) \<Rightarrow> Inr (True, Some purchase))"

definition resetSaleKeys :: "(nat \<Rightarrow> bool) \<Rightarrow> int \<Rightarrow> store \<Rightarrow> (err + unit) \<times> store" where
  "resetSaleKeys f sid s =
     (case redis_del_stock (f 0) sid s of
        Inl e \<Rightarrow> (Inl e, s)
      | Inr s1 \<Rightarrow>
          (case redis_keys (f 1) sid s1 of
             Inl e \<Rightarrow> (Inl e, s1)
           | Inr ks \<Rightarrow>
               if ks \<noteq> {}
               then (case redis_del_keys (f 2) ks s1 of
                       Inl e \<Rightarrow> (Inl e, s1)
                     | Inr s2 \<Rightarrow> (Inr (), s2))
               else (Inr (), s1)))"

definition resetSale :: "(nat \<Rightarrow> bool) \<Rightarrow> int \<Rightarrow> int \<Rightarrow> store \<Rightarrow> (err + bool) \<times> store" where
  "resetSale f sid new_stock s =
     (case db_set_total_stock (f 0) sid new_stock s of
        Inl e \<Rightarrow> (Inl e, s)
      | Inr s1 \<Rightarrow>
          (case db_delete_orders (f 1) sid s1 of
             Inl e \<Rightarrow> (Inl e, s1)
           | Inr s2 \<Rightarrow>
               (case resetSaleKeys (\<lambda>i. f (2 + i)) sid s2 of
                  (Inl e, s3) \<Rightarrow> (Inl e, s3)
                | (Inr u, s3) \<Rightarrow>
                    (case initializeStock (f 5) sid new_stock s3 of
                       Inl e \<Rightarrow> (Inl e, s3)
                     | Inr s4 \<Rightarrow> (Inr True, s4)))))"

definition initializeRedisStock :: "(nat \<Rightarrow> bool) \<Rightarrow> int \<Rightarrow> store \<Rightarrow> (err + int) \<times> store" where
  "initializeRedisStock f sid s =
     (case calculateRemainingStockFromDB (f 0) sid s of
        Inl e \<Rightarrow> (Inl e, s)
      | Inr remaining \<Rightarrow>
          (case initializeStock (f 1) sid remaining s of
             Inl e \<Rightarrow> (Inl e, s)
           | Inr s1 \<Rightarrow> (Inr remaining, s1)))"

text \<open>The loop of \<^verbatim>\<open>completeRedisRecovery\<close> over the rows found, collecting
  \<^verbatim>\<open>restoredUsers\<close>.\<close>

fun restore_marks ::
  "(nat \<Rightarrow> bool) \<Rightarrow> int \<Rightarrow> string list \<Rightarrow> string list \<Rightarrow> store \<Rightarrow> (err + string list) \<times> store" where
  "restore_marks f sid [] restoredUsers s = (Inr restoredUsers, s)"
| "restore_marks f sid (u # us) restoredUsers s =
     (case markUserPurchased (f 0) sid u s of
        Inl e \<Rightarrow> (Inl e, s)
      | Inr s1 \<Rightarrow> restore_marks (\<lambda>i. f (Suc i)) sid us (restoredUsers @ [u]) s1)"

definition completeRedisRecovery ::
  "(nat \<Rightarrow> bool) \<Rightarrow> int \<Rightarrow> store \<Rightarrow> (err + string list) \<times> store" where
  "completeRedisRecovery f sid s =
     (case getSuccessfulUserPurchases (f 0) sid s of
        Inl e \<Rightarrow> (Inl e, s)
      | Inr userPurchases \<Rightarrow> restore_marks (\<lambda>i. f (Suc i)) sid userPurchases [] s)"

text \<open>Redis after a crash that lost all of it.\<close>

definition redis_lost :: "store \<Rightarrow> store" where
  "redis_lost s = s\<lparr>stock := Map.empty, marks := {}\<rparr>"

section \<open>What a request in flight has reserved\<close>

text \<open>
  Between its \<^verbatim>\<open>DECR\<close> and the call that settles it (the commit of its order, or an
  \<^verbatim>\<open>INCR\<close>) a request has taken one unit off the counter. \<open>holds_unit\<close> counts the
  request when its \<^verbatim>\<open>DECR\<close> returned a value \<open>\<ge> 0\<close>, \<open>owes_unit\<close> when it returned a
  negative one.
\<close>

definition pending_incr :: "pc \<Rightarrow> bool" where
  "pending_incr p =
     (p \<in> {AtSoldOutIncr, AtMark, AtGetClient, AtTransaction, AtRollback, AtDupIncr, AtCatchIncr})"

definition nonneg_stock :: "req \<Rightarrow> bool" where
  "nonneg_stock r = (case newStock r of None \<Rightarrow> False | Some n \<Rightarrow> 0 \<le> n)"

definition neg_stock :: "req \<Rightarrow> bool" where
  "neg_stock r = (case newStock r of None \<Rightarrow> False | Some n \<Rightarrow> n < 0)"

definition holds_unit :: "int \<Rightarrow> req \<Rightarrow> int" where
  "holds_unit sid r = (if saleId r = sid \<and> pending_incr (pc r) \<and> nonneg_stock r then 1 else 0)"

definition owes_unit :: "int \<Rightarrow> req \<Rightarrow> int" where
  "owes_unit sid r = (if saleId r = sid \<and> pending_incr (pc r) \<and> neg_stock r then 1 else 0)"

definition units_held :: "int \<Rightarrow> req list \<Rightarrow> int" where
  "units_held sid rs = sum_list (map (holds_unit sid) rs)"

definition units_owed :: "int \<Rightarrow> req list \<Rightarrow> int" where
  "units_owed sid rs = sum_list (map (owes_unit sid) rs)"

text \<open>Orders committed, units held by requests in flight, and what the counter still
  offers once the requests that owe it an \<^verbatim>\<open>INCR\<close> have paid.\<close>

definition committed_and_reserved :: "config \<Rightarrow> int \<Rightarrow> int" where
  "committed_and_reserved c sid =
     count_success (shared c) sid + units_held sid (pool c)
       + max 0 (stock_value (shared c) sid + units_owed sid (pool c))"

text \<open>What the local variables of a request say at each \<^verbatim>\<open>await\<close>.\<close>

definition accepted :: "req \<Rightarrow> bool" where
  "accepted r = (case response r of None \<Rightarrow> False | Some resp \<Rightarrow> result resp = SUCCESS)"

definition req_inv :: "req \<Rightarrow> bool" where
  "req_inv r =
     ((pc r \<in> {AtGetSale, AtRedisCheck, AtDbCheck, AtDecr} \<longrightarrow>
          \<not> stockDecremented r \<and> \<not> userMarked r \<and> newStock r = None \<and> response r = None)
      \<and> (pc r = AtSoldOutIncr \<longrightarrow> stockDecremented r \<and> \<not> userMarked r \<and> neg_stock r)
      \<and> (pc r = AtMark \<longrightarrow> stockDecremented r \<and> \<not> userMarked r \<and> nonneg_stock r)
      \<and> (pc r \<in> {AtGetClient, AtTransaction, AtRollback, AtDupIncr} \<longrightarrow>
          stockDecremented r \<and> userMarked r \<and> nonneg_stock r)
      \<and> (pc r = AtCatchIncr \<longrightarrow> stockDecremented r \<and> newStock r \<noteq> None)
      \<and> (pc r = Finished \<longleftrightarrow> response r \<noteq> None)
      \<and> (accepted r \<longrightarrow>
          nonneg_stock r \<and> (OpDecr, True) \<in> set (trace r)
          \<and> map_option remainingStock (response r) = Some (newStock r))
      \<and> (nonneg_stock r \<or> neg_stock r \<longrightarrow> (OpDecr, True) \<in> set (trace r)))"

section \<open>A request before and after a failed decrement\<close>

text \<open>Up to its \<^verbatim>\<open>DECR\<close> a request has only read; \<open>before_decrement\<close> says so of a
  request and the state it started from. \<open>decrement_failed\<close> says what holds once the
  \<^verbatim>\<open>DECR\<close> of the request has thrown.\<close>

definition early :: "pc \<Rightarrow> bool" where
  "early p = (p \<in> {AtGetSale, AtRedisCheck, AtDbCheck, AtDecr})"

definition before_decrement :: "store \<Rightarrow> store \<times> req \<Rightarrow> bool" where
  "before_decrement s0 c =
     (early (pc (snd c)) \<longrightarrow>
        fst c = s0 \<and> \<not> stockDecremented (snd c) \<and> \<not> userMarked (snd c)
        \<and> fst ` set (trace (snd c)) \<subseteq> {OpGetSale, OpRedisCheck, OpDbCheck})"

definition decrement_failed :: "store \<Rightarrow> store \<times> req \<Rightarrow> bool" where
  "decrement_failed s0 c =
     (if (OpDecr, False) \<in> set (trace (snd c))
      then fst c = s0 \<and> pc (snd c) = Finished
           \<and> map_option result (response (snd c)) = Some ERROR
           \<and> OpIncr \<notin> fst ` set (trace (snd c)) \<and> OpUnmark \<notin> fst ` set (trace (snd c))
      else True)"

section \<open>Example states\<close>

text \<open>A sale of five units that is open from instant 0 to instant 1000, nothing sold.\<close>

definition fresh_sale :: store where
  "fresh_sale =
     \<lparr>sales = [1 \<mapsto> \<lparr>sale_name = ''Flash Sale Event'', start_time = 0, end_time = 1000,
                        total_stock = 5\<rparr>],
      orders = [], order_seq = 1, stock = [1 \<mapsto> 5], marks = {}\<rparr>"

text \<open>The same sale with one row of status \<^verbatim>\<open>FAILED\<close> for user \<^verbatim>\<open>u\<close>.\<close>

definition failed_only :: store where
  "failed_only =
     fresh_sale\<lparr>orders := [\<lparr>order_id = 1, user_id = ''u'', sale_id = 1, status = Status_FAILED,
                              created_at = 3\<rparr>],
                order_seq := 2\<rparr>"

text \<open>A sale whose last unit is left.\<close>

definition last_unit :: store where
  "last_unit =
     \<lparr>sales = [1 \<mapsto> \<lparr>sale_name = ''Flash Sale Event'', start_time = 0, end_time = 1000,
                        total_stock = 1\<rparr>],
      orders = [], order_seq = 1, stock = [1 \<mapsto> 1], marks = {}\<rparr>"

text \<open>Two buyers at once: both pass the checks and decrement (\<^verbatim>\<open>a\<close> reads 0, \<^verbatim>\<open>b\<close>
  reads -1), \<^verbatim>\<open>b\<close> gives its unit back, \<^verbatim>\<open>a\<close> marks and commits.\<close>

definition two_buyers_race :: "event list" where
  "two_buyers_race =
     [Arrive ''a'' 1, Arrive ''b'' 1,
      Run 0 False 10, Run 1 False 10, Run 0 False 11, Run 1 False 11,
      Run 0 False 12, Run 1 False 12,
      Run 0 False 13, Run 1 False 13,
      Run 1 False 14,
      Run 0 False 15, Run 0 False 16, Run 0 False 17]"

text \<open>One user twice at once: both requests pass the checks, decrement and mark; the
  first commits; the second has its connection and stands at its insert.\<close>

definition race_to_insert :: "event list" where
  "race_to_insert =
     [Arrive ''u'' 1, Arrive ''u'' 1,
      Run 0 False 10, Run 1 False 10, Run 0 False 11, Run 1 False 11,
      Run 0 False 12, Run 1 False 12,
      Run 0 False 13, Run 1 False 13,
      Run 0 False 14, Run 1 False 14,
      Run 0 False 15, Run 0 False 16,
      Run 1 False 17]"

text \<open>The insert of the second request is refused by the unique index, and the request
  rolls back and increments.\<close>

definition same_user_race :: "event list" where
  "same_user_race = race_to_insert @ [Run 1 False 18, Run 1 False 19, Run 1 False 20]"

text \<open>The same, but the \<^verbatim>\<open>INCR\<close> of line 166 throws; the handler then increments and
  removes the mark.\<close>

definition race_incr_fails :: "event list" where
  "race_incr_fails =
     race_to_insert
       @ [Run 1 False 18, Run 1 False 19, Run 1 True 20, Run 1 False 21, Run 1 False 22]"

definition start :: "store \<Rightarrow> config" where
  "start s = \<lparr>shared = s, pool = []\<rparr>"

text \<open>The sale of one unit after user \<^verbatim>\<open>a\<close> bought it.\<close>

definition sold_out :: store where
  "sold_out =
     last_unit\<lparr>orders := [\<lparr>order_id = 1, user_id = ''a'', sale_id = 1, status = Status_SUCCESS,
                             created_at = 10\<rparr>],
               order_seq := 2, stock := [1 \<mapsto> 0], marks := {(1, ''a'')}\<rparr>"

text \<open>User \<^verbatim>\<open>u\<close> has bought, and the mark is gone (expired, or lost with Redis and the
  stock set again); and the same with the mark in place.\<close>

definition sold_to_u :: store where
  "sold_to_u =
     fresh_sale\<lparr>orders := [\<lparr>order_id = 1, user_id = ''u'', sale_id = 1, status = Status_SUCCESS,
                               created_at = 10\<rparr>],
                order_seq := 2, stock := [1 \<mapsto> 4]\<rparr>"

definition marked_u :: store where
  "marked_u = sold_to_u\<lparr>marks := {(1, ''u'')}\<rparr>"

text \<open>Two units sold; and the same orders under a \<open>total_stock\<close> of one, as a
  \<^verbatim>\<open>resetSale\<close> to one unit leaves the tables when its \<^verbatim>\<open>DELETE\<close> throws.\<close>

definition two_sold :: store where
  "two_sold =
     fresh_sale\<lparr>orders := [\<lparr>order_id = 1, user_id = ''a'', sale_id = 1, status = Status_SUCCESS,
                               created_at = 10\<rparr>,
                             \<lparr>order_id = 2, user_id = ''b'', sale_id = 1, status = Status_SUCCESS,
                               created_at = 11\<rparr>],
                order_seq := 3, stock := [1 \<mapsto> 3], marks := {(1, ''a''), (1, ''b'')}\<rparr>"

definition oversold :: store where
  "oversold = two_sold\<lparr>sales := [1 \<mapsto> \<lparr>sale_name = ''Flash Sale Event'', start_time = 0,
                                           end_time = 1000, total_stock = 1\<rparr>]\<rparr>"


section \<open>Basic facts\<close>

lemmas prim_defs = getSaleById_def redis_hasUserPurchased_def db_hasUserPurchased_def
  decrementStock_def incrementStock_def markUserPurchased_def removeUserPurchaseMark_def
  createOrder_def

lemmas step_defs = step_get_sale_def step_redis_check_def step_db_check_def step_decr_def
  step_sold_out_incr_def step_mark_def step_get_client_def step_transaction_def
  step_rollback_def step_dup_incr_def step_catch_incr_def step_catch_unmark_def

lemmas ctl_defs = catch_error_def catch_unmark_def reply_def logged_def plain_def

lemmas unit_defs = holds_unit_def owes_unit_def pending_incr_def nonneg_stock_def neg_stock_def

lemma latest_None: "latest xs = None \<longleftrightarrow> xs = []"
  by (induction xs) (auto split: option.splits)

lemma latest_in: "latest xs = Some x \<Longrightarrow> x \<in> set xs"
  by (induction xs arbitrary: x) (auto split: option.splits if_splits)

section \<open>Reading a user's purchase\<close>

text \<open>
  Claim C10. \<^verbatim>\<open>GET /purchase/:userId\<close> reads the orders table only: Redis (stock and
  marks) has no influence on its answer. When the query does not throw, \<^verbatim>\<open>purchased\<close>
  is true exactly when the table has a row for the sale and the user, whatever the
  status of the row; when the query throws, so does the handler.
\<close>

theorem get_user_purchase_reads_orders_only:
  "get_purchase_route fault sid u (s\<lparr>stock := st, marks := m\<rparr>) = get_purchase_route fault sid u s
   \<and> (fault \<longrightarrow> get_purchase_route fault sid u s = Inl DbError)
   \<and> (\<not> fault \<longrightarrow>
        (\<exists>found. get_purchase_route fault sid u s
                   = Inr (\<exists>row \<in> set (orders s). sale_id row = sid \<and> user_id row = u, found)))"
proof -
  have "latest (filter (\<lambda>x. sale_id x = sid \<and> user_id x = u) (orders s)) = None
        \<longleftrightarrow> \<not> (\<exists>row \<in> set (orders s). sale_id row = sid \<and> user_id row = u)"
    by (simp add: latest_None filter_empty_conv)
  then show ?thesis
    by (cases "latest (filter (\<lambda>x. sale_id x = sid \<and> user_id x = u) (orders s))")
       (auto simp: get_purchase_route_def getUserPurchase_def)
qed

text \<open>A row of status \<^verbatim>\<open>FAILED\<close> answers \<^verbatim>\<open>purchased: true\<close>, with Redis emptied; a user
  with no row gets \<^verbatim>\<open>purchased: false\<close>.\<close>

theorem get_user_purchase_witness:
  "get_purchase_route False 1 ''u'' (failed_only\<lparr>stock := Map.empty, marks := {}\<rparr>)
     = Inr (True, Some \<lparr>order_id = 1, user_id = ''u'', sale_id = 1, status = Status_FAILED,
                         created_at = 3\<rparr>)
   \<and> get_purchase_route False 1 ''v'' failed_only = Inr (False, None)"
proof -
  have a: "get_purchase_route False 1 ''u'' failed_only
     = Inr (True, Some \<lparr>order_id = 1, user_id = ''u'', sale_id = 1, status = Status_FAILED,
                         created_at = 3\<rparr>)"
    by code_simp
  have b: "get_purchase_route False 1 ''v'' failed_only = Inr (False, None)"
    by code_simp
  from get_user_purchase_reads_orders_only
         [where fault = False and sid = 1 and u = "''u''" and s = failed_only
            and st = Map.empty and m = "{}"] a b
  show ?thesis by simp
qed

section \<open>No overselling\<close>

lemma count_success_simps [simp]:
  "count_success (s\<lparr>stock := st\<rparr>) sid = count_success s sid"
  "count_success (s\<lparr>marks := m\<rparr>) sid = count_success s sid"
  "count_success (s\<lparr>order_seq := k\<rparr>) sid = count_success s sid"
  "count_success (s\<lparr>sales := sa\<rparr>) sid = count_success s sid"
  by (simp_all add: count_success_def success_orders_def)

lemma stock_value_simps [simp]:
  "stock_value (s\<lparr>marks := m\<rparr>) sid = stock_value s sid"
  "stock_value (s\<lparr>order_seq := k\<rparr>) sid = stock_value s sid"
  "stock_value (s\<lparr>orders := os\<rparr>) sid = stock_value s sid"
  "stock_value (s\<lparr>sales := sa\<rparr>) sid = stock_value s sid"
  "stock_value (s\<lparr>stock := (stock s)(sid' \<mapsto> n)\<rparr>) sid = (if sid = sid' then n else stock_value s sid)"
  by (simp_all add: stock_value_def)

lemma count_success_orders:
  "count_success (s\<lparr>orders := orders s @ [row]\<rparr>) sid
     = count_success s sid + (if sale_id row = sid \<and> status row = Status_SUCCESS then 1 else 0)"
  by (simp add: count_success_def success_orders_def)

lemma req_inv_new: "req_inv (new_request u sid)"
  by (simp add: req_inv_def new_request_def accepted_def nonneg_stock_def neg_stock_def)

lemma req_inv_step:
  assumes "req_inv r" shows "req_inv (snd (step fault now s r))"
  using assms
  by (cases "pc r"; cases "newStock r")
     (simp_all add: step_def step_defs prim_defs ctl_defs req_inv_def accepted_def nonneg_stock_def neg_stock_def Let_def
        split: option.split sum.split)

lemma step_sales: "sales (fst (step fault now s r)) = sales s"
  by (cases "pc r") (simp_all add: step_def step_defs prim_defs Let_def split: option.split sum.split)

lemma step_reserved:
  assumes inv: "req_inv r" and K: "0 \<le> K"
  shows "count_success (fst (step fault now s r)) sid + holds_unit sid (snd (step fault now s r))
          + max 0 (stock_value (fst (step fault now s r)) sid + owes_unit sid (snd (step fault now s r)) + K)
       \<le> count_success s sid + holds_unit sid r + max 0 (stock_value s sid + owes_unit sid r + K)"
proof (cases "pc r = AtTransaction")
  case True
  with inv have "nonneg_stock r" by (simp add: req_inv_def)
  with True K show ?thesis
    by (cases "saleId r = sid"; cases "newStock r")
       (simp_all add: step_def step_transaction_def createOrder_def ctl_defs unit_defs Let_def
          count_success_orders max_def)
next
  case False
  from inv have facts:
     "pc r \<in> {AtGetSale, AtRedisCheck, AtDbCheck, AtDecr} \<longrightarrow> newStock r = None \<and> \<not> userMarked r \<and> \<not> stockDecremented r"
     "pc r = AtSoldOutIncr \<longrightarrow> neg_stock r \<and> stockDecremented r"
     "pc r \<in> {AtMark, AtGetClient, AtTransaction, AtRollback, AtDupIncr} \<longrightarrow> nonneg_stock r \<and> stockDecremented r"
     "pc r = AtCatchIncr \<longrightarrow> newStock r \<noteq> None"
    by (simp_all add: req_inv_def)
  with K False show ?thesis
    by (cases "pc r"; cases "newStock r")
       (simp_all add: step_def step_defs prim_defs ctl_defs unit_defs Let_def max_def
           split: option.split sum.split)
qed

lemma sum_list_map_update:
  fixes f :: "'a \<Rightarrow> int"
  shows "i < length xs \<Longrightarrow> sum_list (map f (xs[i := y])) = sum_list (map f xs) - f (xs ! i) + f y"
  by (induction xs arbitrary: i) (auto split: nat.splits)

lemma elem_le_sum_list:
  fixes f :: "'a \<Rightarrow> int"
  assumes "\<And>x. 0 \<le> f x"
  shows "i < length xs \<Longrightarrow> f (xs ! i) \<le> sum_list (map f xs)"
proof (induction xs arbitrary: i)
  case Nil
  then show ?case by simp
next
  case (Cons a xs)
  have "0 \<le> sum_list (map f xs)" by (rule sum_list_nonneg) (auto simp: assms)
  with Cons assms[of a] show ?case by (cases i) (auto simp: add_increasing)
qed

lemma units_nonneg: "0 \<le> holds_unit sid r" "0 \<le> owes_unit sid r"
  by (simp_all add: holds_unit_def owes_unit_def)

lemma units_held_nonneg: "0 \<le> units_held sid rs"
  unfolding units_held_def by (rule sum_list_nonneg) (auto simp: units_nonneg)

lemma units_owed_nonneg: "0 \<le> units_owed sid rs"
  unfolding units_owed_def by (rule sum_list_nonneg) (auto simp: units_nonneg)

lemma run_reserved:
  assumes inv: "list_all req_inv (pool c)"
  shows "committed_and_reserved (exec1 (Run i fault now) c) sid \<le> committed_and_reserved c sid"
proof (cases "i < length (pool c)")
  case False
  then show ?thesis by simp
next
  case True
  define r where "r = pool c ! i"
  define K where "K = units_owed sid (pool c) - owes_unit sid r"
  define H where "H = units_held sid (pool c) - holds_unit sid r"
  from True inv have ri: "req_inv r" by (simp add: r_def list_all_length)
  have K0: "0 \<le> K"
    using elem_le_sum_list[of "owes_unit sid" i "pool c"] True
    by (simp add: K_def r_def units_owed_def units_nonneg)
  obtain s' r' where st: "step fault now (shared c) r = (s', r')" by (cases "step fault now (shared c) r")
  have c': "exec1 (Run i fault now) c = c\<lparr>shared := s', pool := (pool c)[i := r']\<rparr>"
    using True st by (simp add: r_def)
  have held: "units_held sid ((pool c)[i := r']) = H + holds_unit sid r'"
    using True by (simp add: units_held_def sum_list_map_update H_def r_def)
  have owed: "units_owed sid ((pool c)[i := r']) = K + owes_unit sid r'"
    using True by (simp add: units_owed_def sum_list_map_update K_def r_def)
  from step_reserved[OF ri K0, of fault now "shared c" sid] st
  have "count_success s' sid + holds_unit sid r' + max 0 (stock_value s' sid + owes_unit sid r' + K)
       \<le> count_success (shared c) sid + holds_unit sid r + max 0 (stock_value (shared c) sid + owes_unit sid r + K)"
    by simp
  then show ?thesis
    unfolding c' committed_and_reserved_def
    by (simp add: held owed) (simp add: H_def K_def algebra_simps)
qed

lemma exec1_reserved:
  assumes "list_all req_inv (pool c)" and "purchase_event e"
  shows "committed_and_reserved (exec1 e c) sid \<le> committed_and_reserved c sid"
proof (cases e)
  case (Run i fault now)
  with assms run_reserved show ?thesis by simp
next
  case (Arrive u sd)
  then show ?thesis
    by (simp add: committed_and_reserved_def units_held_def units_owed_def holds_unit_def owes_unit_def
        new_request_def pending_incr_def)
next
  case (ExpireMark sd u)
  then show ?thesis
    by (simp add: committed_and_reserved_def keep_def removeUserPurchaseMark_def)
qed (use assms in simp_all)

lemma exec1_req_inv:
  assumes "list_all req_inv (pool c)"
  shows "list_all req_inv (pool (exec1 e c))"
proof (cases e)
  case (Run i fault now)
  show ?thesis
  proof (cases "i < length (pool c)")
    case True
    with assms have "req_inv (pool c ! i)" by (simp add: list_all_length)
    from req_inv_step[OF this, of fault now "shared c"] assms True show ?thesis
      by (simp add: Run list_all_length nth_list_update split_beta)
  next
    case False
    with assms show ?thesis by (simp add: Run)
  qed
next
  case (Arrive u sd)
  with assms show ?thesis by (simp add: req_inv_new)
qed (use assms in simp_all)

lemma exec1_sales:
  "purchase_event e \<Longrightarrow> sales (shared (exec1 e c)) = sales (shared c)"
proof (cases e)
  case (Run i fault now)
  show ?thesis using step_sales[of fault now "shared c" "pool c ! i"]
    by (simp add: Run split_beta)
qed (simp_all add: keep_def removeUserPurchaseMark_def)

lemma exec_purchase_only:
  assumes "list_all purchase_event evs" and "list_all req_inv (pool c)"
  shows "committed_and_reserved (exec evs c) sid \<le> committed_and_reserved c sid
       \<and> list_all req_inv (pool (exec evs c))
       \<and> sales (shared (exec evs c)) = sales (shared c)"
  using assms
proof (induction evs arbitrary: c)
  case Nil
  then show ?case by simp
next
  case (Cons e evs)
  from Cons.prems have e: "purchase_event e" and rest: "list_all purchase_event evs" by simp_all
  from exec1_req_inv[OF Cons.prems(2)] have inv': "list_all req_inv (pool (exec1 e c))" .
  from Cons.IH[OF rest inv'] exec1_reserved[OF Cons.prems(2) e, of sid] exec1_sales[OF e, of c]
  show ?case by simp
qed

text \<open>
  Claim C1. Start with no request in flight, with the sale in the table, and with a
  counter that offers no more than what is left (\<open>max 0 stock + count \<le> total_stock\<close>,
  as \<^verbatim>\<open>resetSale\<close> and \<^verbatim>\<open>initializeRedisStock\<close> leave it). Then after any schedule
  of purchase traffic (arrivals, steps of any request in any order, each call failing
  or not, and expiry of marks) the number of \<^verbatim>\<open>SUCCESS\<close> orders of the sale is at
  most its \<open>total_stock\<close>, and every request that returned \<^verbatim>\<open>SUCCESS\<close> had a
  \<^verbatim>\<open>DECR\<close> that returned a value \<open>\<ge> 0\<close>.
\<close>

theorem no_overselling:
  assumes "list_all purchase_event evs"
    and "pool c = []"
    and "sales (shared c) sid = Some sl"
    and "max 0 (stock_value (shared c) sid) + count_success (shared c) sid \<le> total_stock sl"
  shows "sales (shared (exec evs c)) sid = Some sl
       \<and> count_success (shared (exec evs c)) sid \<le> total_stock sl
       \<and> (\<forall>r \<in> set (pool (exec evs c)).
             accepted r \<longrightarrow> nonneg_stock r \<and> (OpDecr, True) \<in> set (trace r))"
proof -
  from assms(2) have inv: "list_all req_inv (pool c)" by simp
  note ex = exec_purchase_only[OF assms(1) inv, of sid]
  have "count_success (shared (exec evs c)) sid \<le> committed_and_reserved (exec evs c) sid"
    using units_held_nonneg[of sid "pool (exec evs c)"]
    by (simp add: committed_and_reserved_def)
  also have "\<dots> \<le> committed_and_reserved c sid" using ex by simp
  also have "\<dots> = count_success (shared c) sid + max 0 (stock_value (shared c) sid)"
    using assms(2) by (simp add: committed_and_reserved_def units_held_def units_owed_def)
  finally have "count_success (shared (exec evs c)) sid \<le> total_stock sl"
    using assms(4) by simp
  moreover have "\<forall>r \<in> set (pool (exec evs c)).
             accepted r \<longrightarrow> nonneg_stock r \<and> (OpDecr, True) \<in> set (trace r)"
    using ex by (auto simp: list_all_iff req_inv_def)
  ultimately show ?thesis using ex assms(3) by simp
qed

text \<open>The race of two buyers for the last unit: one order, one \<^verbatim>\<open>SOLD_OUT\<close>, and the
  counter back at 0.\<close>

theorem no_overselling_witness:
  "list_all purchase_event two_buyers_race
   \<and> max 0 (stock_value last_unit 1) + count_success last_unit 1 \<le> 1
   \<and> count_success (shared (exec two_buyers_race \<lparr>shared = last_unit, pool = []\<rparr>)) 1 \<le> 1
   \<and> map (\<lambda>r. map_option result (response r)) (pool (exec two_buyers_race \<lparr>shared = last_unit, pool = []\<rparr>))
       = [Some SUCCESS, Some SOLD_OUT]
   \<and> stock (shared (exec two_buyers_race \<lparr>shared = last_unit, pool = []\<rparr>)) 1 = Some 0"
proof -
  have h1: "list_all purchase_event two_buyers_race" by code_simp
  have h2: "pool \<lparr>shared = last_unit, pool = []\<rparr> = []" by simp
  have h3: "sales (shared \<lparr>shared = last_unit, pool = []\<rparr>) 1
              = Some \<lparr>sale_name = ''Flash Sale Event'', start_time = 0, end_time = 1000, total_stock = 1\<rparr>"
    by (simp add: last_unit_def)
  have h4: "max 0 (stock_value last_unit 1) + count_success last_unit 1 \<le> 1" by code_simp
  have h4': "max 0 (stock_value (shared \<lparr>shared = last_unit, pool = []\<rparr>) 1)
               + count_success (shared \<lparr>shared = last_unit, pool = []\<rparr>) 1
             \<le> total_stock \<lparr>sale_name = ''Flash Sale Event'', start_time = 0, end_time = 1000, total_stock = 1\<rparr>"
    using h4 by simp
  have r: "map (\<lambda>r. map_option result (response r)) (pool (exec two_buyers_race \<lparr>shared = last_unit, pool = []\<rparr>))
       = [Some SUCCESS, Some SOLD_OUT]" by code_simp
  have st: "stock (shared (exec two_buyers_race \<lparr>shared = last_unit, pool = []\<rparr>)) 1 = Some 0" by code_simp
  from no_overselling[OF h1 h2 h3 h4'] h1 h4 r st show ?thesis by simp
qed

section \<open>One order per customer\<close>

text \<open>The only write to the orders table by a request is the insert, and the insert
  adds one row whose key is not in the table.\<close>

lemma step_orders:
  "orders (fst (step fault now s r)) = orders s
   \<or> (\<exists>row. orders (fst (step fault now s r)) = orders s @ [row]
             \<and> order_key row \<notin> set (map order_key (orders s)))"
  by (cases "pc r")
     (simp_all add: step_def step_defs prim_defs Let_def order_key_def split: option.split sum.split)

lemma step_unique:
  assumes "unique_user_sale (orders s)"
  shows "unique_user_sale (orders (fst (step fault now s r)))"
  using assms step_orders[of fault now s r] by (auto simp: unique_user_sale_def)

lemma exec1_unique:
  assumes "unique_user_sale (orders (shared c))"
  shows "unique_user_sale (orders (shared (exec1 e c)))"
proof (cases e)
  case (Run i fault now)
  with assms step_unique[of "shared c" fault now "pool c ! i"] show ?thesis
    by (simp add: split_beta)
next
  case (DeleteOrders sd)
  with assms show ?thesis
    by (simp add: keep_def db_delete_orders_def unique_user_sale_def distinct_map_filter)
qed (use assms in \<open>simp_all add: keep_def removeUserPurchaseMark_def redis_del_stock_def
       redis_del_keys_def initializeStock_def markUserPurchased_def\<close>)

lemma exec_unique:
  "unique_user_sale (orders (shared c)) \<Longrightarrow> unique_user_sale (orders (shared (exec evs c)))"
  by (induction evs arbitrary: c) (simp_all add: exec1_unique)

lemma unique_at_most_one:
  assumes "unique_user_sale os"
  shows "length (filter (\<lambda>x. sale_id x = sid \<and> user_id x = u \<and> P x) os) \<le> 1"
  using assms
proof (induction os)
  case Nil
  then show ?case by simp
next
  case (Cons a os)
  then have tl: "length (filter (\<lambda>x. sale_id x = sid \<and> user_id x = u \<and> P x) os) \<le> 1"
    and fresh: "order_key a \<notin> order_key ` set os"
    by (simp_all add: unique_user_sale_def)
  show ?case
  proof (cases "sale_id a = sid \<and> user_id a = u")
    case True
    with fresh have "\<forall>x \<in> set os. \<not> (sale_id x = sid \<and> user_id x = u \<and> P x)"
      by (auto simp: order_key_def image_iff)
    then have "filter (\<lambda>x. sale_id x = sid \<and> user_id x = u \<and> P x) os = []"
      by (simp add: filter_empty_conv)
    then show ?thesis by simp
  next
    case False
    with tl show ?thesis by auto
  qed
qed

text \<open>
  Claim C2. The orders table has at most one row, and so at most one \<^verbatim>\<open>SUCCESS\<close> row,
  per sale and user in every state reached from a table that satisfies
  \<^verbatim>\<open>unique_user_sale\<close>, by any schedule of any events: steps of purchase requests in
  any interleaving and with any failures, expiry of marks, and the writes of the other
  operations. What keeps it so is the constraint itself: an insert for a key already
  in the table is refused with a unique violation.
\<close>

theorem one_per_customer:
  assumes "unique_user_sale (orders (shared c))"
  shows "unique_user_sale (orders (shared (exec evs c)))
       \<and> length (filter (\<lambda>x. sale_id x = sid \<and> user_id x = u \<and> status x = Status_SUCCESS)
                   (orders (shared (exec evs c)))) \<le> 1
       \<and> ((u, sid) \<in> set (map order_key (orders (shared (exec evs c)))) \<longrightarrow>
            fst (createOrder False now sid u st (shared (exec evs c))) = Inl UniqueViolation)"
  using exec_unique[OF assms, of evs]
    unique_at_most_one[of "orders (shared (exec evs c))" sid u "\<lambda>x. status x = Status_SUCCESS"]
  by (simp add: createOrder_def)

text \<open>The same user twice at once: the first request commits, the insert of the second
  fails with 23505, and one order stands.\<close>

theorem one_per_customer_witness:
  "unique_user_sale (orders fresh_sale)
   \<and> length (filter (\<lambda>x. sale_id x = 1 \<and> user_id x = ''u'' \<and> status x = Status_SUCCESS)
         (orders (shared (exec same_user_race \<lparr>shared = fresh_sale, pool = []\<rparr>)))) \<le> 1
   \<and> map (\<lambda>r. (map_option result (response r), dbError r))
         (pool (exec same_user_race \<lparr>shared = fresh_sale, pool = []\<rparr>))
       = [(Some SUCCESS, None), (Some ALREADY_PURCHASED, Some UniqueViolation)]
   \<and> map user_id (orders (shared (exec same_user_race \<lparr>shared = fresh_sale, pool = []\<rparr>))) = [''u'']"
proof -
  have h: "unique_user_sale (orders (shared \<lparr>shared = fresh_sale, pool = []\<rparr>))" by code_simp
  have h': "unique_user_sale (orders fresh_sale)" by code_simp
  have a: "map (\<lambda>r. (map_option result (response r), dbError r))
         (pool (exec same_user_race \<lparr>shared = fresh_sale, pool = []\<rparr>))
       = [(Some SUCCESS, None), (Some ALREADY_PURCHASED, Some UniqueViolation)]" by code_simp
  have b: "map user_id (orders (shared (exec same_user_race \<lparr>shared = fresh_sale, pool = []\<rparr>))) = [''u'']"
    by code_simp
  from one_per_customer[OF h, of same_user_race 1 "''u''"] h' a b show ?thesis by simp
qed

section \<open>A request handled alone\<close>

text \<open>A finished request no longer moves, and the record of calls only grows.\<close>

lemma run_steps_finished: "pc (snd c) = Finished \<Longrightarrow> run_steps n e c = c"
  by (induction n) (simp_all add: step_env_def step_def)

lemma run_steps_unfold: "0 < n \<Longrightarrow> run_steps n e c = run_steps (n - 1) e (step_env e c)"
  by (cases n) simp_all

lemma run_steps_add: "run_steps (m + n) e c = run_steps n e (run_steps m e c)"
  by (induction m arbitrary: c) simp_all

lemmas run_defs = processPurchase_def step_env_def step_def new_request_def

lemma trace_step: "set (trace r) \<subseteq> set (trace (snd (step fault now s r)))"
  by (cases "pc r")
     (auto simp: step_def step_defs prim_defs ctl_defs Let_def split: option.split sum.split)

lemma trace_run_steps: "set (trace (snd c)) \<subseteq> set (trace (snd (run_steps n e c)))"
proof (induction n arbitrary: c)
  case 0
  show ?case by simp
next
  case (Suc n)
  have "set (trace (snd c)) \<subseteq> set (trace (snd (step_env e c)))"
    by (simp add: step_env_def trace_step)
  with Suc[of "step_env e c"] show ?case by auto
qed

text \<open>Every request returns: eleven steps bring it to \<open>Finished\<close>, with a response.\<close>

lemma rank_step: "rank (pc (snd (step fault now s r))) \<le> rank (pc r) - 1"
  by (cases "pc r")
     (simp_all add: step_def step_defs prim_defs ctl_defs Let_def split: option.split sum.split)

lemma rank_run_steps: "rank (pc (snd (run_steps n e c))) \<le> rank (pc (snd c)) - n"
proof (induction n arbitrary: c)
  case 0
  show ?case by simp
next
  case (Suc n)
  have "rank (pc (snd (step_env e c))) \<le> rank (pc (snd c)) - 1"
    unfolding step_env_def by (rule rank_step)
  with Suc[of "step_env e c"] show ?case by simp
qed

lemma run_steps_req_inv: "req_inv (snd c) \<Longrightarrow> req_inv (snd (run_steps n e c))"
  by (induction n arbitrary: c) (simp_all add: step_env_def req_inv_step)

lemma processPurchase_returns:
  "pc (snd (processPurchase e u sid s)) = Finished
   \<and> response (snd (processPurchase e u sid s)) \<noteq> None
   \<and> req_inv (snd (processPurchase e u sid s))"
proof -
  have "rank (pc (snd (processPurchase e u sid s))) \<le> 0"
    using rank_run_steps[of 11 e "(s, new_request u sid)"]
    by (simp add: processPurchase_def new_request_def)
  then have "pc (snd (processPurchase e u sid s)) = Finished"
    by (cases "pc (snd (processPurchase e u sid s))") simp_all
  moreover have "req_inv (snd (processPurchase e u sid s))"
    unfolding processPurchase_def by (rule run_steps_req_inv) (simp add: req_inv_new)
  ultimately show ?thesis by (simp add: req_inv_def)
qed

text \<open>
  Run alone, the step machine computes the nested function: same store, same response,
  same record of calls.
\<close>

lemma run_catch_unmark:
  assumes "0 < n"
  shows "run_steps n e (s, catch_unmark r) =
     (if userMarked r
      then (case removeUserPurchaseMark (fails e AtCatchUnmark) (saleId r) (userId r) s of
              Inl x \<Rightarrow> (s, reply (plain ERROR) (logged OpUnmark False r))
            | Inr s' \<Rightarrow> (s', reply (plain ERROR) (logged OpUnmark True r)))
      else (s, reply (plain ERROR) r))"
  using assms
  by (cases "userMarked r"; cases "fails e AtCatchUnmark")
     (simp_all add: run_steps_unfold run_steps_finished step_env_def step_def step_catch_unmark_def
        removeUserPurchaseMark_def ctl_defs)

lemma run_catch_error:
  assumes "1 < n"
  shows "run_steps n e (s, catch_error r) = outer_catch e s r"
  using assms
  by (cases "stockDecremented r"; cases "userMarked r"; cases "fails e AtCatchIncr";
      cases "fails e AtCatchUnmark")
     (simp_all add: run_steps_unfold run_steps_finished step_env_def step_def step_catch_incr_def
        step_catch_unmark_def incrementStock_def removeUserPurchaseMark_def ctl_defs outer_catch_def
        Let_def)

lemma outer_catch_pc: "outer_catch e s (r\<lparr>pc := p\<rparr>) = outer_catch e s r"
  by (simp add: outer_catch_def ctl_defs Let_def split: sum.split prod.split)

lemma outer_catch_canon:
  "pc r \<noteq> AtGetSale \<Longrightarrow> outer_catch e s r = outer_catch e s (r\<lparr>pc := AtGetSale\<rparr>)"
  by (simp add: outer_catch_pc)

lemma outer_catch_idle:
  "\<not> stockDecremented r \<Longrightarrow> \<not> userMarked r \<Longrightarrow> outer_catch e s r = (s, reply (plain ERROR) r)"
  by (simp add: outer_catch_def)

lemma run_handler:
  assumes "pc r = AtCatchIncr" and "stockDecremented r" and "1 < n"
  shows "run_steps n e (s, r) = outer_catch e s r"
proof -
  have "r = catch_error r" using assms by (simp add: catch_error_def)
  then have "run_steps n e (s, r) = run_steps n e (s, catch_error r)" by simp
  with assms(3) show ?thesis by (simp add: run_catch_error)
qed

lemma run_steps_pair:
  assumes "0 < n" and "pc r \<noteq> AtCatchIncr"
  shows "run_steps n e (s, r) = run_steps (n - 1) e (step (fails e (pc r)) (clock e) s r)"
  using assms by (simp add: run_steps_unfold step_env_def)

lemma processPurchase_is_purchase_body:
  "processPurchase e u sid s = purchase_body e u sid s"
  by (simp add: processPurchase_def new_request_def purchase_body_def hasUserPurchased_def
        inner_catch_def Let_def run_steps_pair run_steps_finished run_handler outer_catch_idle
        outer_catch_canon outer_catch_pc
        step_def step_defs prim_defs catch_error_def catch_unmark_def reply_def logged_def plain_def
      split: sum.split option.split prod.split)

section \<open>The check of the user mark\<close>

lemma marked_run:
  assumes "\<not> fails e AtGetSale" and "sales s sid = Some sl" and "isSaleActive (clock e) (Some sl)"
    and "\<not> fails e AtRedisCheck" and "(sid, u) \<in> marks s"
  shows "processPurchase e u sid s =
     (s, \<lparr>userId = u, saleId = sid, pc = Finished, stockDecremented = False, userMarked = False,
          newStock = None, dbError = None, response = Some (plain ALREADY_PURCHASED),
          trace = [(OpGetSale, True), (OpRedisCheck, True)]\<rparr>)"
  using assms
  by (simp add: run_defs run_steps_unfold run_steps_finished step_defs prim_defs ctl_defs)

lemma db_check_reached:
  assumes "\<not> fails e AtGetSale" and "sales s sid = Some sl" and "isSaleActive (clock e) (Some sl)"
    and "fails e AtRedisCheck \<or> (sid, u) \<notin> marks s"
  shows "run_steps 2 e (s, new_request u sid) =
     (s, \<lparr>userId = u, saleId = sid, pc = AtDbCheck, stockDecremented = False, userMarked = False,
          newStock = None, dbError = None, response = None,
          trace = [(OpGetSale, True), (OpRedisCheck, \<not> fails e AtRedisCheck)]\<rparr>)"
  using assms
  by (cases "fails e AtRedisCheck")
     (simp_all add: run_defs run_steps_unfold step_defs prim_defs ctl_defs)

lemma db_check_logged:
  assumes "\<not> fails e AtGetSale" and "sales s sid = Some sl" and "isSaleActive (clock e) (Some sl)"
    and "fails e AtRedisCheck \<or> (sid, u) \<notin> marks s"
  shows "(OpDbCheck, \<not> fails e AtDbCheck) \<in> set (trace (snd (processPurchase e u sid s)))"
proof -
  have "(OpDbCheck, \<not> fails e AtDbCheck) \<in> set (trace (snd (run_steps 1 e (run_steps 2 e (s, new_request u sid)))))"
    unfolding db_check_reached[OF assms]
    by (cases "fails e AtDbCheck")
       (simp_all add: run_steps_unfold step_env_def step_def step_db_check_def db_hasUserPurchased_def ctl_defs)
  moreover have "processPurchase e u sid s
      = run_steps 8 e (run_steps 1 e (run_steps 2 e (s, new_request u sid)))"
    using run_steps_add[of 3 8 e "(s, new_request u sid)"] run_steps_add[of 2 1 e "(s, new_request u sid)"]
    by (simp add: processPurchase_def)
  ultimately show ?thesis
    using trace_run_steps[of "run_steps 1 e (run_steps 2 e (s, new_request u sid))" 8 e] by auto
qed

lemma db_says_purchased_run:
  assumes "\<not> fails e AtGetSale" and "sales s sid = Some sl" and "isSaleActive (clock e) (Some sl)"
    and "fails e AtRedisCheck \<or> (sid, u) \<notin> marks s"
    and "\<not> fails e AtDbCheck"
    and "\<exists>x \<in> set (orders s). sale_id x = sid \<and> user_id x = u \<and> status x = Status_SUCCESS"
  shows "processPurchase e u sid s =
     (s, \<lparr>userId = u, saleId = sid, pc = Finished, stockDecremented = False, userMarked = False,
          newStock = None, dbError = None, response = Some (plain ALREADY_PURCHASED),
          trace = [(OpGetSale, True), (OpRedisCheck, \<not> fails e AtRedisCheck), (OpDbCheck, True)]\<rparr>)"
proof -
  from assms(6) have "filter (\<lambda>x. sale_id x = sid \<and> user_id x = u \<and> status x = Status_SUCCESS) (orders s) \<noteq> []"
    by (auto simp: filter_empty_conv)
  with assms(1-5) show ?thesis
    by (cases "fails e AtRedisCheck")
       (simp_all add: run_defs run_steps_unfold run_steps_finished step_defs prim_defs ctl_defs)
qed

text \<open>
  Claim C6, as amended. For a request whose sale lookup returns an active sale: when
  the Redis check answers that the mark exists, the request returns
  \<^verbatim>\<open>ALREADY_PURCHASED\<close> after these two calls and nothing is written. In every other
  case, the mark absent or the Redis check throwing, the orders table is asked next;
  and when that query finds a \<^verbatim>\<open>SUCCESS\<close> row of the user the request returns
  \<^verbatim>\<open>ALREADY_PURCHASED\<close> after these three calls, nothing written.
\<close>

theorem user_mark_check:
  assumes "\<not> fails e AtGetSale" and "sales s sid = Some sl" and "isSaleActive (clock e) (Some sl)"
  shows "(\<not> fails e AtRedisCheck \<and> (sid, u) \<in> marks s \<longrightarrow>
            map_option result (response (snd (processPurchase e u sid s))) = Some ALREADY_PURCHASED
          \<and> trace (snd (processPurchase e u sid s)) = [(OpGetSale, True), (OpRedisCheck, True)]
          \<and> fst (processPurchase e u sid s) = s)
       \<and> (fails e AtRedisCheck \<or> (sid, u) \<notin> marks s \<longrightarrow>
            (OpDbCheck, \<not> fails e AtDbCheck) \<in> set (trace (snd (processPurchase e u sid s)))
          \<and> (\<not> fails e AtDbCheck
              \<and> (\<exists>x \<in> set (orders s). sale_id x = sid \<and> user_id x = u \<and> status x = Status_SUCCESS) \<longrightarrow>
                map_option result (response (snd (processPurchase e u sid s))) = Some ALREADY_PURCHASED
              \<and> trace (snd (processPurchase e u sid s))
                  = [(OpGetSale, True), (OpRedisCheck, \<not> fails e AtRedisCheck), (OpDbCheck, True)]
              \<and> fst (processPurchase e u sid s) = s))"
proof (intro conjI impI)
  assume a: "\<not> fails e AtRedisCheck \<and> (sid, u) \<in> marks s"
  then have run: "processPurchase e u sid s =
     (s, \<lparr>userId = u, saleId = sid, pc = Finished, stockDecremented = False, userMarked = False,
          newStock = None, dbError = None, response = Some (plain ALREADY_PURCHASED),
          trace = [(OpGetSale, True), (OpRedisCheck, True)]\<rparr>)"
    using marked_run[OF assms] by simp
  show "map_option result (response (snd (processPurchase e u sid s))) = Some ALREADY_PURCHASED"
    and "trace (snd (processPurchase e u sid s)) = [(OpGetSale, True), (OpRedisCheck, True)]"
    and "fst (processPurchase e u sid s) = s"
    by (simp_all add: run plain_def)
next
  assume b: "fails e AtRedisCheck \<or> (sid, u) \<notin> marks s"
  show "(OpDbCheck, \<not> fails e AtDbCheck) \<in> set (trace (snd (processPurchase e u sid s)))"
    by (rule db_check_logged[OF assms b])
  assume c: "\<not> fails e AtDbCheck
              \<and> (\<exists>x \<in> set (orders s). sale_id x = sid \<and> user_id x = u \<and> status x = Status_SUCCESS)"
  note run = db_says_purchased_run[OF assms b conjunct1[OF c] conjunct2[OF c]]
  show "map_option result (response (snd (processPurchase e u sid s))) = Some ALREADY_PURCHASED"
    and "trace (snd (processPurchase e u sid s))
           = [(OpGetSale, True), (OpRedisCheck, \<not> fails e AtRedisCheck), (OpDbCheck, True)]"
    and "fst (processPurchase e u sid s) = s"
    by (simp_all add: run plain_def)
qed

text \<open>The claim as stated has the orders table asked only when Redis is unavailable.
  Here Redis answers (the mark is absent) and the table is asked all the same.\<close>

theorem db_check_with_redis_up:
  "(1, ''u'') \<notin> marks sold_to_u
   \<and> trace (snd (processPurchase (no_faults 20) ''u'' 1 sold_to_u))
       = [(OpGetSale, True), (OpRedisCheck, True), (OpDbCheck, True)]
   \<and> map_option result (response (snd (processPurchase (no_faults 20) ''u'' 1 sold_to_u)))
       = Some ALREADY_PURCHASED"
  by code_simp

text \<open>With the mark in place: two calls when Redis answers, three when it throws.\<close>

theorem user_mark_check_witness:
  "map_option result (response (snd (processPurchase (no_faults 20) ''u'' 1 marked_u))) = Some ALREADY_PURCHASED
   \<and> trace (snd (processPurchase (no_faults 20) ''u'' 1 marked_u)) = [(OpGetSale, True), (OpRedisCheck, True)]
   \<and> map_option result (response (snd (processPurchase (faults_at [AtRedisCheck] 20) ''u'' 1 marked_u)))
       = Some ALREADY_PURCHASED
   \<and> trace (snd (processPurchase (faults_at [AtRedisCheck] 20) ''u'' 1 marked_u))
       = [(OpGetSale, True), (OpRedisCheck, False), (OpDbCheck, True)]"
proof -
  let ?sl = "\<lparr>sale_name = ''Flash Sale Event'', start_time = 0, end_time = 1000, total_stock = 5\<rparr>"
  have s: "sales marked_u 1 = Some ?sl" by (simp add: marked_u_def sold_to_u_def fresh_sale_def)
  have a: "\<not> fails (no_faults 20) AtGetSale" "isSaleActive (clock (no_faults 20)) (Some ?sl)"
    "\<not> fails (no_faults 20) AtRedisCheck"
    by (simp_all add: no_faults_def isSaleActive_def)
  have b: "\<not> fails (faults_at [AtRedisCheck] 20) AtGetSale"
    "isSaleActive (clock (faults_at [AtRedisCheck] 20)) (Some ?sl)"
    "fails (faults_at [AtRedisCheck] 20) AtRedisCheck" "\<not> fails (faults_at [AtRedisCheck] 20) AtDbCheck"
    by (simp_all add: faults_at_def isSaleActive_def)
  have m: "(1, ''u'') \<in> marks marked_u" by (simp add: marked_u_def)
  have o: "\<exists>x \<in> set (orders marked_u). sale_id x = 1 \<and> user_id x = ''u'' \<and> status x = Status_SUCCESS"
    by (simp add: marked_u_def sold_to_u_def)
  from user_mark_check[OF a(1) s a(2), of "''u''"] user_mark_check[OF b(1) s b(2), of "''u''"] a b m o
  show ?thesis by simp
qed

section \<open>A decrement that fails\<close>

lemma decr_step:
  assumes "before_decrement s0 (s, r)" and "decrement_failed s0 (s, r)"
    and "\<not> early (pc r) \<and> pc r \<noteq> Finished \<longrightarrow> (OpDecr, False) \<notin> set (trace r)"
  shows "before_decrement s0 (step fault now s r)
       \<and> decrement_failed s0 (step fault now s r)
       \<and> (\<not> early (pc (snd (step fault now s r))) \<and> pc (snd (step fault now s r)) \<noteq> Finished
            \<longrightarrow> (OpDecr, False) \<notin> set (trace (snd (step fault now s r))))"
  using assms
  by (cases "pc r")
     (auto simp: before_decrement_def decrement_failed_def early_def step_def step_defs prim_defs ctl_defs
        Let_def image_iff split: option.split sum.split if_splits)

lemma decr_run:
  assumes "before_decrement s0 c" and "decrement_failed s0 c"
    and "\<not> early (pc (snd c)) \<and> pc (snd c) \<noteq> Finished \<longrightarrow> (OpDecr, False) \<notin> set (trace (snd c))"
  shows "decrement_failed s0 (run_steps n e c)"
  using assms
proof (induction n arbitrary: c)
  case 0
  then show ?case by simp
next
  case (Suc n)
  obtain s r where c: "c = (s, r)" by (cases c)
  from decr_step[of s0 s r "fails e (pc r)" "clock e"] Suc.prems
  have "before_decrement s0 (step_env e c)" "decrement_failed s0 (step_env e c)"
    "\<not> early (pc (snd (step_env e c))) \<and> pc (snd (step_env e c)) \<noteq> Finished
       \<longrightarrow> (OpDecr, False) \<notin> set (trace (snd (step_env e c)))"
    by (simp_all add: c step_env_def)
  from Suc.IH[OF this] show ?case by simp
qed

text \<open>
  Claim C7. When the \<^verbatim>\<open>DECR\<close> of a request throws, the request returns \<^verbatim>\<open>ERROR\<close>,
  it calls neither \<^verbatim>\<open>INCR\<close> nor the removal of the mark, and the shared state, Redis
  and PostgreSQL, is what it was when the request started.
\<close>

theorem decrement_failure_needs_no_compensation:
  assumes "(OpDecr, False) \<in> set (trace (snd (processPurchase e u sid s)))"
  shows "map_option result (response (snd (processPurchase e u sid s))) = Some ERROR
       \<and> pc (snd (processPurchase e u sid s)) = Finished
       \<and> OpIncr \<notin> fst ` set (trace (snd (processPurchase e u sid s)))
       \<and> OpUnmark \<notin> fst ` set (trace (snd (processPurchase e u sid s)))
       \<and> fst (processPurchase e u sid s) = s"
proof -
  have "decrement_failed s (run_steps 11 e (s, new_request u sid))"
    by (rule decr_run) (simp_all add: before_decrement_def decrement_failed_def early_def new_request_def)
  with assms show ?thesis
    by (simp add: processPurchase_def decrement_failed_def)
qed

text \<open>A request against five units whose \<^verbatim>\<open>DECR\<close> throws.\<close>

theorem decrement_failure_witness:
  "(OpDecr, False) \<in> set (trace (snd (processPurchase (faults_at [AtDecr] 10) ''u'' 1 fresh_sale)))
   \<and> map_option result (response (snd (processPurchase (faults_at [AtDecr] 10) ''u'' 1 fresh_sale))) = Some ERROR
   \<and> trace (snd (processPurchase (faults_at [AtDecr] 10) ''u'' 1 fresh_sale))
       = [(OpGetSale, True), (OpRedisCheck, True), (OpDbCheck, True), (OpDecr, False)]
   \<and> fst (processPurchase (faults_at [AtDecr] 10) ''u'' 1 fresh_sale) = fresh_sale"
proof -
  have t: "trace (snd (processPurchase (faults_at [AtDecr] 10) ''u'' 1 fresh_sale))
       = [(OpGetSale, True), (OpRedisCheck, True), (OpDbCheck, True), (OpDecr, False)]"
    by code_simp
  then have h: "(OpDecr, False) \<in> set (trace (snd (processPurchase (faults_at [AtDecr] 10) ''u'' 1 fresh_sale)))"
    by simp
  from decrement_failure_needs_no_compensation[OF h] h t show ?thesis by simp
qed

section \<open>The oversell guard\<close>

lemma sold_out_run:
  assumes "\<not> fails e AtGetSale" and "sales s sid = Some sl" and "isSaleActive (clock e) (Some sl)"
    and "(sid, u) \<notin> marks s"
    and "filter (\<lambda>x. sale_id x = sid \<and> user_id x = u \<and> status x = Status_SUCCESS) (orders s) = []"
    and "\<not> fails e AtDbCheck" and "\<not> fails e AtDecr"
    and "stock_value s sid \<le> 0"
  shows "processPurchase e u sid s =
     (s\<lparr>stock := (stock s)(sid \<mapsto> (if fails e AtSoldOutIncr \<and> fails e AtCatchIncr
                                       then stock_value s sid - 1 else stock_value s sid))\<rparr>,
      \<lparr>userId = u, saleId = sid, pc = Finished, stockDecremented = fails e AtSoldOutIncr,
       userMarked = False, newStock = Some (stock_value s sid - 1), dbError = None,
       response = Some (plain (if fails e AtSoldOutIncr then ERROR else SOLD_OUT)),
       trace = [(OpGetSale, True), (OpRedisCheck, \<not> fails e AtRedisCheck), (OpDbCheck, True),
                (OpDecr, True), (OpIncr, \<not> fails e AtSoldOutIncr)]
               @ (if fails e AtSoldOutIncr then [(OpIncr, \<not> fails e AtCatchIncr)] else [])\<rparr>)"
  using assms
  by (cases "fails e AtRedisCheck"; cases "fails e AtSoldOutIncr"; cases "fails e AtCatchIncr")
     (simp_all add: run_defs run_steps_unfold run_steps_finished step_defs prim_defs ctl_defs Let_def)

lemma success_run:
  assumes "\<not> fails e AtGetSale" and "sales s sid = Some sl" and "isSaleActive (clock e) (Some sl)"
    and "(sid, u) \<notin> marks s"
    and "filter (\<lambda>x. sale_id x = sid \<and> user_id x = u \<and> status x = Status_SUCCESS) (orders s) = []"
    and "\<not> fails e AtDbCheck" and "\<not> fails e AtDecr"
    and "1 \<le> stock_value s sid" and "\<not> fails e AtMark" and "\<not> fails e AtGetClient"
    and "\<not> fails e AtTransaction" and "(u, sid) \<notin> set (map order_key (orders s))"
  shows "processPurchase e u sid s =
     (s\<lparr>stock := (stock s)(sid \<mapsto> stock_value s sid - 1),
        marks := insert (sid, u) (marks s),
        orders := orders s @ [\<lparr>order_id = order_seq s, user_id = u, sale_id = sid,
                                 status = Status_SUCCESS, created_at = clock e\<rparr>],
        order_seq := order_seq s + 1\<rparr>,
      \<lparr>userId = u, saleId = sid, pc = Finished, stockDecremented = True, userMarked = True,
       newStock = Some (stock_value s sid - 1), dbError = None,
       response = Some \<lparr>result = SUCCESS,
                        placed = Some \<lparr>order_id = order_seq s, user_id = u, sale_id = sid,
                                       status = Status_SUCCESS, created_at = clock e\<rparr>,
                        remainingStock = Some (stock_value s sid - 1), saleStatus = None\<rparr>,
       trace = [(OpGetSale, True), (OpRedisCheck, \<not> fails e AtRedisCheck), (OpDbCheck, True),
                (OpDecr, True), (OpMark, True), (OpGetClient, True), (OpTransaction, True)]\<rparr>)"
  using assms
  by (cases "fails e AtRedisCheck")
     (simp_all add: run_defs run_steps_unfold run_steps_finished step_defs prim_defs ctl_defs Let_def)

text \<open>
  Claim C3, as amended. Take a request on an active sale by a user with no mark and
  no \<^verbatim>\<open>SUCCESS\<close> order, whose database check and \<^verbatim>\<open>DECR\<close> return. When the counter
  was \<open>\<le> 0\<close>, so that \<^verbatim>\<open>DECR\<close> returns a negative value, the request calls \<^verbatim>\<open>INCR\<close>
  and writes no order and no mark; when that \<^verbatim>\<open>INCR\<close> returns, the request returns
  \<^verbatim>\<open>SOLD_OUT\<close> and the counter has its value from before the \<^verbatim>\<open>DECR\<close>; when it
  throws, the handler calls \<^verbatim>\<open>INCR\<close> once more and the request returns \<^verbatim>\<open>ERROR\<close>, the
  counter restored exactly when that second call returns. When the counter was \<open>\<ge> 1\<close>
  and the mark write, the connection and the insert succeed, the request returns
  \<^verbatim>\<open>SUCCESS\<close> with \<^verbatim>\<open>remainingStock\<close> the value that \<^verbatim>\<open>DECR\<close> returned.
\<close>

theorem oversell_guard:
  assumes "\<not> fails e AtGetSale" and "sales s sid = Some sl" and "isSaleActive (clock e) (Some sl)"
    and "(sid, u) \<notin> marks s"
    and "\<not> (\<exists>x \<in> set (orders s). sale_id x = sid \<and> user_id x = u \<and> status x = Status_SUCCESS)"
    and "\<not> fails e AtDbCheck" and "\<not> fails e AtDecr"
  shows "(stock_value s sid \<le> 0 \<longrightarrow>
            (OpIncr, \<not> fails e AtSoldOutIncr) \<in> set (trace (snd (processPurchase e u sid s)))
          \<and> newStock (snd (processPurchase e u sid s)) = Some (stock_value s sid - 1)
          \<and> orders (fst (processPurchase e u sid s)) = orders s
          \<and> marks (fst (processPurchase e u sid s)) = marks s
          \<and> (\<not> fails e AtSoldOutIncr \<longrightarrow>
                map_option result (response (snd (processPurchase e u sid s))) = Some SOLD_OUT
              \<and> stock_value (fst (processPurchase e u sid s)) sid = stock_value s sid)
          \<and> (fails e AtSoldOutIncr \<longrightarrow>
                map_option result (response (snd (processPurchase e u sid s))) = Some ERROR
              \<and> (OpIncr, \<not> fails e AtCatchIncr) \<in> set (trace (snd (processPurchase e u sid s)))
              \<and> stock_value (fst (processPurchase e u sid s)) sid
                  = (if fails e AtCatchIncr then stock_value s sid - 1 else stock_value s sid)))
       \<and> (1 \<le> stock_value s sid \<and> \<not> fails e AtMark \<and> \<not> fails e AtGetClient
            \<and> \<not> fails e AtTransaction \<and> (u, sid) \<notin> set (map order_key (orders s)) \<longrightarrow>
            map_option result (response (snd (processPurchase e u sid s))) = Some SUCCESS
          \<and> map_option remainingStock (response (snd (processPurchase e u sid s)))
               = Some (Some (stock_value s sid - 1))
          \<and> newStock (snd (processPurchase e u sid s)) = Some (stock_value s sid - 1)
          \<and> stock_value (fst (processPurchase e u sid s)) sid = stock_value s sid - 1
          \<and> count_success (fst (processPurchase e u sid s)) sid = count_success s sid + 1)"
proof -
  from assms(5) have none:
    "filter (\<lambda>x. sale_id x = sid \<and> user_id x = u \<and> status x = Status_SUCCESS) (orders s) = []"
    by (auto simp: filter_empty_conv)
  note pre = assms(1-4) none assms(6,7)
  have low: ?thesis if "stock_value s sid \<le> 0"
    using that by (simp add: sold_out_run[OF pre that] plain_def stock_value_def)
  have high: ?thesis if h: "1 \<le> stock_value s sid"
  proof (cases "\<not> fails e AtMark \<and> \<not> fails e AtGetClient \<and> \<not> fails e AtTransaction
                 \<and> (u, sid) \<notin> set (map order_key (orders s))")
    case True
    then have run: "processPurchase e u sid s = (s\<lparr>stock := (stock s)(sid \<mapsto> stock_value s sid - 1),
        marks := insert (sid, u) (marks s),
        orders := orders s @ [\<lparr>order_id = order_seq s, user_id = u, sale_id = sid,
                                 status = Status_SUCCESS, created_at = clock e\<rparr>],
        order_seq := order_seq s + 1\<rparr>,
      \<lparr>userId = u, saleId = sid, pc = Finished, stockDecremented = True, userMarked = True,
       newStock = Some (stock_value s sid - 1), dbError = None,
       response = Some \<lparr>result = SUCCESS,
                        placed = Some \<lparr>order_id = order_seq s, user_id = u, sale_id = sid,
                                       status = Status_SUCCESS, created_at = clock e\<rparr>,
                        remainingStock = Some (stock_value s sid - 1), saleStatus = None\<rparr>,
       trace = [(OpGetSale, True), (OpRedisCheck, \<not> fails e AtRedisCheck), (OpDbCheck, True),
                (OpDecr, True), (OpMark, True), (OpGetClient, True), (OpTransaction, True)]\<rparr>)"
      using success_run[OF pre h] by simp
    from h show ?thesis
      by (simp add: run stock_value_def count_success_def success_orders_def)
  next
    case False
    with h show ?thesis by auto
  qed
  from low high show ?thesis by linarith
qed

text \<open>The claim as stated has \<^verbatim>\<open>SOLD_OUT\<close> returned and the counter restored whenever
  \<^verbatim>\<open>DECR\<close> returns a negative value. Here both increments throw: the request returns
  \<^verbatim>\<open>ERROR\<close> and the counter rests at -1.\<close>

theorem sold_out_incr_failure:
  "trace (snd (processPurchase (faults_at [AtSoldOutIncr, AtCatchIncr] 11) ''b'' 1 sold_out))
     = [(OpGetSale, True), (OpRedisCheck, True), (OpDbCheck, True), (OpDecr, True),
        (OpIncr, False), (OpIncr, False)]
   \<and> newStock (snd (processPurchase (faults_at [AtSoldOutIncr, AtCatchIncr] 11) ''b'' 1 sold_out)) = Some (- 1)
   \<and> map_option result (response (snd (processPurchase (faults_at [AtSoldOutIncr, AtCatchIncr] 11) ''b'' 1 sold_out)))
       = Some ERROR
   \<and> stock (fst (processPurchase (faults_at [AtSoldOutIncr, AtCatchIncr] 11) ''b'' 1 sold_out)) 1 = Some (- 1)"
  by code_simp

text \<open>The last unit: the first request decrements from 1 and returns \<^verbatim>\<open>SUCCESS\<close> with
  \<^verbatim>\<open>remainingStock\<close> 0, the next one is \<^verbatim>\<open>SOLD_OUT\<close> and leaves the counter at 0. When
  the \<^verbatim>\<open>INCR\<close> of that next request throws and the one of the handler returns, the request
  returns \<^verbatim>\<open>ERROR\<close> and the counter is at 0 as well.\<close>

theorem oversell_guard_witness:
  "map_option result (response (snd (processPurchase (no_faults 10) ''a'' 1 last_unit))) = Some SUCCESS
   \<and> map_option remainingStock (response (snd (processPurchase (no_faults 10) ''a'' 1 last_unit)))
       = Some (Some 0)
   \<and> map_option result (response (snd (processPurchase (no_faults 11) ''b'' 1
         (fst (processPurchase (no_faults 10) ''a'' 1 last_unit))))) = Some SOLD_OUT
   \<and> stock_value (fst (processPurchase (no_faults 11) ''b'' 1
         (fst (processPurchase (no_faults 10) ''a'' 1 last_unit)))) 1 = 0
   \<and> (OpIncr, True) \<in> set (trace (snd (processPurchase (no_faults 11) ''b'' 1
         (fst (processPurchase (no_faults 10) ''a'' 1 last_unit)))))
   \<and> map_option result (response (snd (processPurchase (faults_at [AtSoldOutIncr] 11) ''b'' 1
         (fst (processPurchase (no_faults 10) ''a'' 1 last_unit))))) = Some ERROR
   \<and> stock_value (fst (processPurchase (faults_at [AtSoldOutIncr] 11) ''b'' 1
         (fst (processPurchase (no_faults 10) ''a'' 1 last_unit)))) 1 = 0"
proof -
  let ?sl = "\<lparr>sale_name = ''Flash Sale Event'', start_time = 0, end_time = 1000, total_stock = 1\<rparr>"
  let ?s1 = "fst (processPurchase (no_faults 10) ''a'' 1 last_unit)"
  let ?f = "faults_at [AtSoldOutIncr] 11"
  have a1: "\<not> fails (no_faults 10) AtGetSale" "\<not> fails (no_faults 10) AtDbCheck"
    "\<not> fails (no_faults 10) AtDecr" "\<not> fails (no_faults 10) AtMark"
    "\<not> fails (no_faults 10) AtGetClient" "\<not> fails (no_faults 10) AtTransaction"
    by (simp_all add: no_faults_def)
  have a2: "sales last_unit 1 = Some ?sl" by (simp add: last_unit_def)
  have a3: "isSaleActive (clock (no_faults 10)) (Some ?sl)" by (simp add: no_faults_def isSaleActive_def)
  have a4: "(1, ''a'') \<notin> marks last_unit" by (simp add: last_unit_def)
  have a5: "\<not> (\<exists>x \<in> set (orders last_unit). sale_id x = 1 \<and> user_id x = ''a'' \<and> status x = Status_SUCCESS)"
    by (simp add: last_unit_def)
  have a6: "stock_value last_unit 1 = 1" "(''a'', 1) \<notin> set (map order_key (orders last_unit))"
    by (simp_all add: last_unit_def stock_value_def)
  have b1: "\<not> fails (no_faults 11) AtGetSale" "\<not> fails (no_faults 11) AtDbCheck"
    "\<not> fails (no_faults 11) AtDecr" "\<not> fails (no_faults 11) AtSoldOutIncr"
    by (simp_all add: no_faults_def)
  have c1: "\<not> fails ?f AtGetSale" "\<not> fails ?f AtDbCheck" "\<not> fails ?f AtDecr"
    "fails ?f AtSoldOutIncr" "\<not> fails ?f AtCatchIncr"
    by (simp_all add: faults_at_def)
  have b2: "sales ?s1 1 = Some ?sl" by code_simp
  have b3: "isSaleActive (clock (no_faults 11)) (Some ?sl)" by (simp add: no_faults_def isSaleActive_def)
  have c3: "isSaleActive (clock ?f) (Some ?sl)" by (simp add: faults_at_def isSaleActive_def)
  have b4: "(1, ''b'') \<notin> marks ?s1" by code_simp
  have b5: "\<not> (\<exists>x \<in> set (orders ?s1). sale_id x = 1 \<and> user_id x = ''b'' \<and> status x = Status_SUCCESS)"
    by code_simp
  have b6: "stock_value ?s1 1 = 0" by code_simp
  from oversell_guard[OF a1(1) a2 a3 a4 a5 a1(2) a1(3)] a1 a6
       oversell_guard[OF b1(1) b2 b3 b4 b5 b1(2) b1(3)] b1 b6
       oversell_guard[OF c1(1) b2 c3 b4 b5 c1(2) c1(3)] c1
  show ?thesis by simp
qed

section \<open>An insert refused as a duplicate\<close>

lemma duplicate_run:
  assumes "pc r = AtTransaction" and "stockDecremented r" and "userMarked r"
    and "(userId r, saleId r) \<in> set (map order_key (orders s))" and "\<not> fails e AtTransaction"
  shows "run_steps 5 e (s, r) =
    (if \<not> fails e AtRollback \<and> \<not> fails e AtDupIncr
     then (s\<lparr>order_seq := order_seq s + 1,
              stock := (stock s)(saleId r \<mapsto> stock_value s (saleId r) + 1)\<rparr>,
           r\<lparr>pc := Finished, dbError := Some UniqueViolation,
              response := Some (plain ALREADY_PURCHASED),
              trace := trace r @ [(OpTransaction, False), (OpRollback, True), (OpIncr, True)]\<rparr>)
     else (s\<lparr>order_seq := order_seq s + 1,
              stock := (if fails e AtCatchIncr then stock s
                        else (stock s)(saleId r \<mapsto> stock_value s (saleId r) + 1)),
              marks := (if fails e AtCatchUnmark then marks s
                        else marks s - {(saleId r, userId r)})\<rparr>,
           r\<lparr>pc := Finished, dbError := Some UniqueViolation,
              response := Some (plain ERROR),
              trace := trace r @ [(OpTransaction, False), (OpRollback, \<not> fails e AtRollback)]
                         @ (if fails e AtRollback then [] else [(OpIncr, False)])
                         @ [(OpIncr, \<not> fails e AtCatchIncr), (OpUnmark, \<not> fails e AtCatchUnmark)]\<rparr>))"
  using assms
  by (cases "fails e AtRollback"; cases "fails e AtDupIncr"; cases "fails e AtCatchIncr";
      cases "fails e AtCatchUnmark")
     (simp_all add: step_env_def step_def run_steps_unfold run_steps_finished step_defs prim_defs
        ctl_defs Let_def)

text \<open>
  Claim C4, as amended. Take a request that stands at its insert, with a row of its
  user and sale already in the table, and run it to its end (at most five more calls).
  The insert fails with a unique violation and adds no row. When \<^verbatim>\<open>ROLLBACK\<close> and the
  \<^verbatim>\<open>INCR\<close> that follows return, the request returns \<^verbatim>\<open>ALREADY_PURCHASED\<close>, the counter
  is one higher than before these calls and the marks are untouched. When either of the
  two throws, the handler runs instead: it calls \<^verbatim>\<open>INCR\<close> and the removal of the mark,
  and the request returns \<^verbatim>\<open>ERROR\<close>.
\<close>

theorem duplicate_compensation:
  assumes "req_inv r" and "pc r = AtTransaction"
    and "(userId r, saleId r) \<in> set (map order_key (orders s))" and "\<not> fails e AtTransaction"
  shows "dbError (snd (run_steps 5 e (s, r))) = Some UniqueViolation
       \<and> pc (snd (run_steps 5 e (s, r))) = Finished
       \<and> orders (fst (run_steps 5 e (s, r))) = orders s
       \<and> (\<not> fails e AtRollback \<and> \<not> fails e AtDupIncr \<longrightarrow>
             map_option result (response (snd (run_steps 5 e (s, r)))) = Some ALREADY_PURCHASED
           \<and> trace (snd (run_steps 5 e (s, r)))
               = trace r @ [(OpTransaction, False), (OpRollback, True), (OpIncr, True)]
           \<and> stock_value (fst (run_steps 5 e (s, r))) (saleId r) = stock_value s (saleId r) + 1
           \<and> marks (fst (run_steps 5 e (s, r))) = marks s)
       \<and> (fails e AtRollback \<or> fails e AtDupIncr \<longrightarrow>
             map_option result (response (snd (run_steps 5 e (s, r)))) = Some ERROR
           \<and> (OpIncr, \<not> fails e AtCatchIncr) \<in> set (trace (snd (run_steps 5 e (s, r))))
           \<and> (OpUnmark, \<not> fails e AtCatchUnmark) \<in> set (trace (snd (run_steps 5 e (s, r))))
           \<and> stock_value (fst (run_steps 5 e (s, r))) (saleId r)
               = (if fails e AtCatchIncr then stock_value s (saleId r) else stock_value s (saleId r) + 1)
           \<and> marks (fst (run_steps 5 e (s, r)))
               = (if fails e AtCatchUnmark then marks s else marks s - {(saleId r, userId r)}))"
proof -
  from assms(1,2) have flags: "stockDecremented r" "userMarked r"
    by (simp_all add: req_inv_def)
  show ?thesis
    unfolding duplicate_run[OF assms(2) flags assms(3,4)]
    by (simp add: plain_def stock_value_def)
qed

text \<open>The claim as stated has \<^verbatim>\<open>ALREADY_PURCHASED\<close> returned and the mark left in place
  whenever the insert fails as a duplicate. Here the \<^verbatim>\<open>INCR\<close> after the rollback
  throws: the second request returns \<^verbatim>\<open>ERROR\<close>, and the mark of the user, whose order
  stands, is removed.\<close>

theorem duplicate_incr_failure:
  "map (\<lambda>r. map_option result (response r)) (pool (exec race_incr_fails (start fresh_sale)))
     = [Some SUCCESS, Some ERROR]
   \<and> dbError (pool (exec race_incr_fails (start fresh_sale)) ! 1) = Some UniqueViolation
   \<and> trace (pool (exec race_incr_fails (start fresh_sale)) ! 1)
       = [(OpGetSale, True), (OpRedisCheck, True), (OpDbCheck, True), (OpDecr, True), (OpMark, True),
          (OpGetClient, True), (OpTransaction, False), (OpRollback, True), (OpIncr, False),
          (OpIncr, True), (OpUnmark, True)]
   \<and> (1, ''u'') \<notin> marks (shared (exec race_incr_fails (start fresh_sale)))
   \<and> map user_id (orders (shared (exec race_incr_fails (start fresh_sale)))) = [''u'']"
  by code_simp

text \<open>The second of two requests of one user, from its insert on: with no call failing,
  and with the \<^verbatim>\<open>INCR\<close> after the rollback throwing.\<close>

theorem duplicate_compensation_witness:
  "pc (pool (exec race_to_insert (start fresh_sale)) ! 1) = AtTransaction
   \<and> stock_value (shared (exec race_to_insert (start fresh_sale))) 1 = 3
   \<and> map_option result (response (snd (run_steps 5 (no_faults 18)
         (shared (exec race_to_insert (start fresh_sale)), pool (exec race_to_insert (start fresh_sale)) ! 1))))
       = Some ALREADY_PURCHASED
   \<and> stock_value (fst (run_steps 5 (no_faults 18)
         (shared (exec race_to_insert (start fresh_sale)), pool (exec race_to_insert (start fresh_sale)) ! 1))) 1
       = 4
   \<and> (1, ''u'') \<in> marks (fst (run_steps 5 (no_faults 18)
         (shared (exec race_to_insert (start fresh_sale)), pool (exec race_to_insert (start fresh_sale)) ! 1)))
   \<and> map_option result (response (snd (run_steps 5 (faults_at [AtDupIncr] 18)
         (shared (exec race_to_insert (start fresh_sale)), pool (exec race_to_insert (start fresh_sale)) ! 1))))
       = Some ERROR
   \<and> (1, ''u'') \<notin> marks (fst (run_steps 5 (faults_at [AtDupIncr] 18)
         (shared (exec race_to_insert (start fresh_sale)), pool (exec race_to_insert (start fresh_sale)) ! 1)))"
proof -
  let ?c = "exec race_to_insert (start fresh_sale)"
  let ?f = "faults_at [AtDupIncr] 18"
  have h1: "req_inv (pool ?c ! 1)" by code_simp
  have h2: "pc (pool ?c ! 1) = AtTransaction" by code_simp
  have h3: "(userId (pool ?c ! 1), saleId (pool ?c ! 1)) \<in> set (map order_key (orders (shared ?c)))"
    by code_simp
  have h4: "\<not> fails (no_faults 18) AtTransaction" "\<not> fails (no_faults 18) AtRollback"
    "\<not> fails (no_faults 18) AtDupIncr"
    by (simp_all add: no_faults_def)
  have h5: "\<not> fails ?f AtTransaction" "\<not> fails ?f AtRollback" "fails ?f AtDupIncr"
    "\<not> fails ?f AtCatchIncr" "\<not> fails ?f AtCatchUnmark"
    by (simp_all add: faults_at_def)
  have v: "saleId (pool ?c ! 1) = 1" "userId (pool ?c ! 1) = ''u''"
    "stock_value (shared ?c) 1 = 3" "(1, ''u'') \<in> marks (shared ?c)"
    by code_simp+
  from duplicate_compensation[OF h1 h2 h3 h4(1)] duplicate_compensation[OF h1 h2 h3 h5(1)]
    h2 h4 h5 v show ?thesis by simp
qed

section \<open>An insert that fails otherwise\<close>

lemma insert_failure_run:
  assumes "\<not> fails e AtGetSale" and "sales s sid = Some sl" and "isSaleActive (clock e) (Some sl)"
    and "(sid, u) \<notin> marks s"
    and "filter (\<lambda>x. sale_id x = sid \<and> user_id x = u \<and> status x = Status_SUCCESS) (orders s) = []"
    and "\<not> fails e AtDbCheck" and "\<not> fails e AtDecr"
    and "1 \<le> stock_value s sid" and "\<not> fails e AtMark" and "\<not> fails e AtGetClient"
    and "fails e AtTransaction"
  shows "processPurchase e u sid s =
     (s\<lparr>stock := (stock s)(sid \<mapsto> (if fails e AtCatchIncr then stock_value s sid - 1 else stock_value s sid)),
        marks := (if fails e AtCatchUnmark then insert (sid, u) (marks s) else marks s)\<rparr>,
      \<lparr>userId = u, saleId = sid, pc = Finished, stockDecremented = True, userMarked = True,
       newStock = Some (stock_value s sid - 1), dbError = Some DbError,
       response = Some (plain ERROR),
       trace = [(OpGetSale, True), (OpRedisCheck, \<not> fails e AtRedisCheck), (OpDbCheck, True),
                (OpDecr, True), (OpMark, True), (OpGetClient, True), (OpTransaction, False),
                (OpRollback, \<not> fails e AtRollback), (OpIncr, \<not> fails e AtCatchIncr),
                (OpUnmark, \<not> fails e AtCatchUnmark)]\<rparr>)"
  using assms
  by (cases "fails e AtRedisCheck"; cases "fails e AtRollback"; cases "fails e AtCatchIncr";
      cases "fails e AtCatchUnmark")
     (simp_all add: run_defs run_steps_unfold run_steps_finished step_defs prim_defs ctl_defs Let_def)

text \<open>
  Claim C5, as amended. Take a request on an active sale by a user with no mark and
  no \<^verbatim>\<open>SUCCESS\<close> order, against a counter \<open>\<ge> 1\<close>, whose calls up to the insert return
  and whose insert throws an error other than a unique violation. The request returns
  \<^verbatim>\<open>ERROR\<close> and adds no order; its handler calls \<^verbatim>\<open>INCR\<close> and the removal of the
  mark; the counter has its value from before the request exactly when that \<^verbatim>\<open>INCR\<close>
  returns (it is one lower otherwise), and the mark of the user is gone exactly when
  the removal returns.
\<close>

theorem durable_failure_compensation:
  assumes "\<not> fails e AtGetSale" and "sales s sid = Some sl" and "isSaleActive (clock e) (Some sl)"
    and "(sid, u) \<notin> marks s"
    and "\<not> (\<exists>x \<in> set (orders s). sale_id x = sid \<and> user_id x = u \<and> status x = Status_SUCCESS)"
    and "\<not> fails e AtDbCheck" and "\<not> fails e AtDecr"
    and "1 \<le> stock_value s sid" and "\<not> fails e AtMark" and "\<not> fails e AtGetClient"
    and "fails e AtTransaction"
  shows "map_option result (response (snd (processPurchase e u sid s))) = Some ERROR
       \<and> orders (fst (processPurchase e u sid s)) = orders s
       \<and> (OpMark, True) \<in> set (trace (snd (processPurchase e u sid s)))
       \<and> (OpTransaction, False) \<in> set (trace (snd (processPurchase e u sid s)))
       \<and> (OpIncr, \<not> fails e AtCatchIncr) \<in> set (trace (snd (processPurchase e u sid s)))
       \<and> (OpUnmark, \<not> fails e AtCatchUnmark) \<in> set (trace (snd (processPurchase e u sid s)))
       \<and> stock_value (fst (processPurchase e u sid s)) sid
            = (if fails e AtCatchIncr then stock_value s sid - 1 else stock_value s sid)
       \<and> ((sid, u) \<in> marks (fst (processPurchase e u sid s)) \<longleftrightarrow> fails e AtCatchUnmark)"
proof -
  from assms(5) have none:
    "filter (\<lambda>x. sale_id x = sid \<and> user_id x = u \<and> status x = Status_SUCCESS) (orders s) = []"
    by (auto simp: filter_empty_conv)
  show ?thesis
    using assms(4)
    by (simp add: insert_failure_run[OF assms(1-4) none assms(6-11)] plain_def stock_value_def)
qed

text \<open>The claim as stated has the counter restored and the mark gone after every such
  request. Here the two calls of the handler throw as well: the request returns
  \<^verbatim>\<open>ERROR\<close>, the counter is 4 instead of 5 and the mark stays.\<close>

theorem compensation_failure:
  "map_option result (response (snd (processPurchase (faults_at [AtTransaction, AtCatchIncr, AtCatchUnmark] 10) ''u'' 1 fresh_sale)))
     = Some ERROR
   \<and> stock (fresh_sale) 1 = Some 5
   \<and> stock (fst (processPurchase (faults_at [AtTransaction, AtCatchIncr, AtCatchUnmark] 10) ''u'' 1 fresh_sale)) 1 = Some 4
   \<and> (1, ''u'') \<in> marks (fst (processPurchase (faults_at [AtTransaction, AtCatchIncr, AtCatchUnmark] 10) ''u'' 1 fresh_sale))
   \<and> trace (snd (processPurchase (faults_at [AtTransaction, AtCatchIncr, AtCatchUnmark] 10) ''u'' 1 fresh_sale))
       = [(OpGetSale, True), (OpRedisCheck, True), (OpDbCheck, True), (OpDecr, True), (OpMark, True),
          (OpGetClient, True), (OpTransaction, False), (OpRollback, True), (OpIncr, False),
          (OpUnmark, False)]"
  by code_simp

text \<open>Five units and an insert that throws: \<^verbatim>\<open>ERROR\<close>, the counter at 5, no
  \<^verbatim>\<open>SUCCESS\<close> order, no mark.\<close>

theorem durable_failure_witness:
  "map_option result (response (snd (processPurchase (faults_at [AtTransaction] 10) ''u'' 1 fresh_sale))) = Some ERROR
   \<and> stock_value fresh_sale 1 = 5
   \<and> stock_value (fst (processPurchase (faults_at [AtTransaction] 10) ''u'' 1 fresh_sale)) 1 = 5
   \<and> count_success (fst (processPurchase (faults_at [AtTransaction] 10) ''u'' 1 fresh_sale)) 1 = 0
   \<and> (1, ''u'') \<notin> marks (fst (processPurchase (faults_at [AtTransaction] 10) ''u'' 1 fresh_sale))"
proof -
  let ?sl = "\<lparr>sale_name = ''Flash Sale Event'', start_time = 0, end_time = 1000, total_stock = 5\<rparr>"
  let ?e = "faults_at [AtTransaction] 10"
  have a1: "\<not> fails ?e AtGetSale" "\<not> fails ?e AtDbCheck" "\<not> fails ?e AtDecr" "\<not> fails ?e AtMark"
    "\<not> fails ?e AtGetClient" "fails ?e AtTransaction" "\<not> fails ?e AtCatchIncr" "\<not> fails ?e AtCatchUnmark"
    by (simp_all add: faults_at_def)
  have a2: "sales fresh_sale 1 = Some ?sl" by (simp add: fresh_sale_def)
  have a3: "isSaleActive (clock ?e) (Some ?sl)" by (simp add: faults_at_def isSaleActive_def)
  have a4: "(1, ''u'') \<notin> marks fresh_sale" by (simp add: fresh_sale_def)
  have a5: "\<not> (\<exists>x \<in> set (orders fresh_sale). sale_id x = 1 \<and> user_id x = ''u'' \<and> status x = Status_SUCCESS)"
    by (simp add: fresh_sale_def)
  have a6: "stock_value fresh_sale 1 = 5" "1 \<le> stock_value fresh_sale 1" "orders fresh_sale = []"
    by (simp_all add: fresh_sale_def stock_value_def)
  from durable_failure_compensation[OF a1(1) a2 a3 a4 a5 a1(2) a1(3) a6(2) a1(4) a1(5) a1(6)] a1 a6
  show ?thesis by (simp add: count_success_def success_orders_def)
qed

section \<open>Reset\<close>

lemma status_from_redis:
  assumes "sales s sid = Some sl" and "stock s sid = Some n" and "0 \<le> n"
    and "max 0 (total_stock sl - count_success s sid) = n"
  shows "getSaleStatusResponse g now sid s =
     (if g 0 \<or> (g 1 \<and> g 2) then Inl DbError
      else Inr (SaleInfo \<lparr>info_saleId = sid, info_name = sale_name sl,
                  info_status = getSaleStatus now (Some sl), info_remainingStock = n,
                  info_totalStock = total_stock sl, info_startTime = start_time sl,
                  info_endTime = end_time sl\<rparr>))"
  using assms
  by (cases "g 0"; cases "g 1"; cases "g 2")
     (simp_all add: getSaleStatusResponse_def getRemainingStock_def getSaleById_def getStock_def
        calculateRemainingStockFromDB_def numeral_2_eq_2)

lemma resetSale_completes:
  assumes "resetSale f sid n s = (Inr True, s')" and "sales s sid = Some sl"
  shows "0 \<le> n"
    and "sales s' = (sales s)(sid \<mapsto> sl\<lparr>total_stock := n\<rparr>)"
    and "orders s' = filter (\<lambda>x. sale_id x \<noteq> sid) (orders s)"
    and "stock s' = (stock s)(sid \<mapsto> n)"
    and "marks s' = marks s - {k \<in> marks s. fst k = sid}"
  using assms
  by (auto simp: resetSale_def resetSaleKeys_def db_set_total_stock_def db_delete_orders_def
       redis_del_stock_def redis_keys_def redis_del_keys_def initializeStock_def
       split: if_splits sum.splits prod.splits)

text \<open>
  Claim C8. When \<^verbatim>\<open>resetSale\<close> of an existing sale to stock \<open>n\<close> completes, the status
  response reports \<^verbatim>\<open>remainingStock\<close> \<open>n\<close> (also when its Redis read throws and it
  falls back on the tables; it throws only when its own database reads do), the orders
  table has no order of the sale, Redis has no mark of the sale, and the counter is
  \<open>n\<close>.
\<close>

theorem reset_round_trip:
  assumes "resetSale f sid n s = (Inr True, s')" and "sales s sid = Some sl"
  shows "getSaleStatusResponse g now sid s' =
           (if g 0 \<or> (g 1 \<and> g 2) then Inl DbError
            else Inr (SaleInfo \<lparr>info_saleId = sid, info_name = sale_name sl,
                        info_status = getSaleStatus now (Some sl), info_remainingStock = n,
                        info_totalStock = n, info_startTime = start_time sl,
                        info_endTime = end_time sl\<rparr>))
       \<and> filter (\<lambda>x. sale_id x = sid) (orders s') = []
       \<and> {k \<in> marks s'. fst k = sid} = {}
       \<and> stock s' sid = Some n"
proof -
  note fin = resetSale_completes[OF assms]
  have none: "filter (\<lambda>x. sale_id x = sid) (orders s') = []"
    by (simp add: fin(3) filter_empty_conv)
  then have "count_success s' sid = 0"
    by (simp add: count_success_def success_orders_def filter_empty_conv)
  then have "getSaleStatusResponse g now sid s' =
           (if g 0 \<or> (g 1 \<and> g 2) then Inl DbError
            else Inr (SaleInfo \<lparr>info_saleId = sid, info_name = sale_name (sl\<lparr>total_stock := n\<rparr>),
                        info_status = getSaleStatus now (Some (sl\<lparr>total_stock := n\<rparr>)),
                        info_remainingStock = n,
                        info_totalStock = total_stock (sl\<lparr>total_stock := n\<rparr>),
                        info_startTime = start_time (sl\<lparr>total_stock := n\<rparr>),
                        info_endTime = end_time (sl\<lparr>total_stock := n\<rparr>)\<rparr>))"
    using fin(1) by (intro status_from_redis) (simp_all add: fin(2,4))
  with none show ?thesis by (auto simp: fin(4,5))
qed

text \<open>A sale with one order and one mark, reset to 50.\<close>

theorem reset_round_trip_witness:
  "fst (resetSale (\<lambda>i. False) 1 50 (fst (processPurchase (no_faults 10) ''u'' 1 fresh_sale))) = Inr True
   \<and> getSaleStatusResponse (\<lambda>i. False) 20 1
        (snd (resetSale (\<lambda>i. False) 1 50 (fst (processPurchase (no_faults 10) ''u'' 1 fresh_sale))))
       = Inr (SaleInfo \<lparr>info_saleId = 1, info_name = ''Flash Sale Event'', info_status = ACTIVE,
                info_remainingStock = 50, info_totalStock = 50, info_startTime = 0, info_endTime = 1000\<rparr>)
   \<and> orders (snd (resetSale (\<lambda>i. False) 1 50 (fst (processPurchase (no_faults 10) ''u'' 1 fresh_sale)))) = []
   \<and> (1, ''u'') \<notin> marks (snd (resetSale (\<lambda>i. False) 1 50 (fst (processPurchase (no_faults 10) ''u'' 1 fresh_sale))))
   \<and> (1, ''u'') \<in> marks (fst (processPurchase (no_faults 10) ''u'' 1 fresh_sale))"
proof -
  let ?s = "fst (processPurchase (no_faults 10) ''u'' 1 fresh_sale)"
  let ?sl = "\<lparr>sale_name = ''Flash Sale Event'', start_time = 0, end_time = 1000, total_stock = 5\<rparr>"
  have h1: "fst (resetSale (\<lambda>i. False) 1 50 ?s) = Inr True" by code_simp
  then have h1': "resetSale (\<lambda>i. False) 1 50 ?s = (Inr True, snd (resetSale (\<lambda>i. False) 1 50 ?s))"
    by (metis prod.collapse)
  have h2: "sales ?s 1 = Some ?sl" by code_simp
  have o: "orders (snd (resetSale (\<lambda>i. False) 1 50 ?s)) = []" by code_simp
  have m: "(1, ''u'') \<notin> marks (snd (resetSale (\<lambda>i. False) 1 50 ?s))" "(1, ''u'') \<in> marks ?s"
    by code_simp+
  from reset_round_trip[OF h1' h2, of "\<lambda>i. False" 20] h1 o m show ?thesis by simp
qed

text \<open>Where purchase traffic may start (the condition of claim C1): after a
  \<^verbatim>\<open>resetSale\<close> that completed, and after an \<^verbatim>\<open>initializeRedisStock\<close> that completed
  when no more orders stand than \<open>total_stock\<close>.\<close>

lemma reset_ready:
  assumes "resetSale f sid n s = (Inr True, s')" and "sales s sid = Some sl"
  shows "sales s' sid = Some (sl\<lparr>total_stock := n\<rparr>)
       \<and> max 0 (stock_value s' sid) + count_success s' sid = total_stock (sl\<lparr>total_stock := n\<rparr>)"
proof -
  note fin = resetSale_completes[OF assms]
  have "count_success s' sid = 0"
    by (simp add: count_success_def success_orders_def fin(3) filter_empty_conv)
  with fin(1) show ?thesis by (simp add: fin(2,4) stock_value_def)
qed

lemma init_stock_ready:
  assumes "initializeRedisStock f sid s = (Inr k, s')" and "sales s sid = Some sl"
    and "count_success s sid \<le> total_stock sl"
  shows "sales s' sid = Some sl
       \<and> max 0 (stock_value s' sid) + count_success s' sid = total_stock sl"
  using assms
  by (auto simp: initializeRedisStock_def calculateRemainingStockFromDB_def initializeStock_def
        stock_value_def split: if_splits)

section \<open>Recovery after Redis is lost\<close>

lemma restore_marks_result:
  assumes "restore_marks f sid us acc s = (Inr res, s')"
  shows "res = acc @ us \<and> marks s' = marks s \<union> {(sid, u) | u. u \<in> set us}
       \<and> sales s' = sales s \<and> orders s' = orders s \<and> stock s' = stock s"
  using assms
proof (induction us arbitrary: f acc s)
  case Nil
  then show ?case by simp
next
  case (Cons u us)
  from Cons.prems have ok: "\<not> f 0"
    by (auto simp: markUserPurchased_def split: if_splits)
  with Cons.prems have "restore_marks (\<lambda>i. f (Suc i)) sid us (acc @ [u])
           (s\<lparr>marks := insert (sid, u) (marks s)\<rparr>) = (Inr res, s')"
    by (simp add: markUserPurchased_def)
  from Cons.IH[OF this] show ?case by auto
qed

lemma recovery_result:
  assumes "sales s sid = Some sl"
    and "initializeRedisStock f sid (redis_lost s) = (Inr k, s1)"
    and "completeRedisRecovery g sid s1 = (Inr us, s2)"
  shows "k = max 0 (total_stock sl - count_success s sid)"
    and "us = map user_id (success_orders s sid)"
    and "sales s2 = sales s" and "orders s2 = orders s"
    and "stock s2 = [sid \<mapsto> k]"
    and "marks s2 = {(sid, u) | u. u \<in> set (map user_id (success_orders s sid))}"
proof -
  from assms(1,2) have k: "k = max 0 (total_stock sl - count_success s sid)"
    and s1: "s1 = (redis_lost s)\<lparr>stock := [sid \<mapsto> k]\<rparr>"
    by (auto simp: initializeRedisStock_def calculateRemainingStockFromDB_def initializeStock_def
          redis_lost_def count_success_def success_orders_def split: if_splits)
  from assms(3) have r: "restore_marks (\<lambda>i. g (Suc i)) sid (map user_id (success_orders s1 sid)) [] s1 = (Inr us, s2)"
    by (auto simp: completeRedisRecovery_def getSuccessfulUserPurchases_def split: if_splits)
  have so: "success_orders s1 sid = success_orders s sid"
    by (simp add: s1 redis_lost_def success_orders_def)
  from restore_marks_result[OF r] show "us = map user_id (success_orders s sid)"
    and "sales s2 = sales s" and "orders s2 = orders s" and "stock s2 = [sid \<mapsto> k]"
    and "marks s2 = {(sid, u) | u. u \<in> set (map user_id (success_orders s sid))}"
    by (simp_all add: so) (simp_all add: s1 redis_lost_def)
  show "k = max 0 (total_stock sl - count_success s sid)"
    by (rule k)
qed

text \<open>
  Claim C9, as amended. With Redis emptied, \<^verbatim>\<open>initializeRedisStock\<close> and then
  \<^verbatim>\<open>completeRedisRecovery\<close> of an existing sale, both completing: the status response
  reports \<^verbatim>\<open>remainingStock\<close> \<open>max 0 (total_stock - count)\<close> for the count of \<^verbatim>\<open>SUCCESS\<close>
  orders, which is \<open>total_stock - count\<close> whenever the count does not exceed
  \<open>total_stock\<close>; every user with a \<^verbatim>\<open>SUCCESS\<close> order is answered
  \<^verbatim>\<open>purchased: true\<close>; and the marks in Redis are those of exactly the users with a
  \<^verbatim>\<open>SUCCESS\<close> order of the sale.
\<close>

theorem crash_recovery:
  assumes "sales s sid = Some sl"
    and "initializeRedisStock f sid (redis_lost s) = (Inr k, s1)"
    and "completeRedisRecovery g sid s1 = (Inr us, s2)"
  shows "getSaleStatusResponse h now sid s2 =
           (if h 0 \<or> (h 1 \<and> h 2) then Inl DbError
            else Inr (SaleInfo \<lparr>info_saleId = sid, info_name = sale_name sl,
                        info_status = getSaleStatus now (Some sl),
                        info_remainingStock = max 0 (total_stock sl - count_success s sid),
                        info_totalStock = total_stock sl, info_startTime = start_time sl,
                        info_endTime = end_time sl\<rparr>))
       \<and> (\<forall>u. (\<exists>x \<in> set (orders s). sale_id x = sid \<and> user_id x = u \<and> status x = Status_SUCCESS)
              \<longrightarrow> (\<exists>row. get_purchase_route False sid u s2 = Inr (True, Some row)))
       \<and> (\<forall>u. (sid, u) \<in> marks s2
              \<longleftrightarrow> (\<exists>x \<in> set (orders s). sale_id x = sid \<and> user_id x = u \<and> status x = Status_SUCCESS))
       \<and> (\<forall>sd u. (sd, u) \<in> marks s2 \<longrightarrow> sd = sid)"
proof -
  note rec = recovery_result[OF assms]
  note k = rec(1)
  have cs: "count_success s2 sid = count_success s sid"
    by (simp add: count_success_def success_orders_def rec(4))
  have status: "getSaleStatusResponse h now sid s2 =
           (if h 0 \<or> (h 1 \<and> h 2) then Inl DbError
            else Inr (SaleInfo \<lparr>info_saleId = sid, info_name = sale_name sl,
                        info_status = getSaleStatus now (Some sl),
                        info_remainingStock = max 0 (total_stock sl - count_success s sid),
                        info_totalStock = total_stock sl, info_startTime = start_time sl,
                        info_endTime = end_time sl\<rparr>))"
    by (rule status_from_redis) (simp_all add: rec(3,5) assms(1) k cs)
  have purchased: "\<exists>row. get_purchase_route False sid u s2 = Inr (True, Some row)"
    if "\<exists>x \<in> set (orders s). sale_id x = sid \<and> user_id x = u \<and> status x = Status_SUCCESS" for u
  proof -
    from that have "filter (\<lambda>x. sale_id x = sid \<and> user_id x = u) (orders s2) \<noteq> []"
      by (auto simp: rec(4) filter_empty_conv)
    then obtain row where "latest (filter (\<lambda>x. sale_id x = sid \<and> user_id x = u) (orders s2)) = Some row"
      by (cases "latest (filter (\<lambda>x. sale_id x = sid \<and> user_id x = u) (orders s2))")
         (auto simp: latest_None)
    then show ?thesis by (simp add: get_purchase_route_def getUserPurchase_def)
  qed
  have marks: "(sid, u) \<in> marks s2
              \<longleftrightarrow> (\<exists>x \<in> set (orders s). sale_id x = sid \<and> user_id x = u \<and> status x = Status_SUCCESS)" for u
    by (auto simp: rec(6) success_orders_def)
  have only: "sd = sid" if "(sd, u) \<in> marks s2" for sd u
    using that by (auto simp: rec(6))
  from status purchased marks only show ?thesis by blast
qed

text \<open>The claim as stated has \<open>total_stock - count\<close> reported. With two orders under a
  \<open>total_stock\<close> of one that is -1, and the response reports 0.\<close>

theorem recovery_clamps_at_zero:
  "total_stock (the (sales oversold 1)) - count_success oversold 1 = - 1
   \<and> getSaleStatusResponse (\<lambda>i. False) 20 1
        (snd (completeRedisRecovery (\<lambda>i. False) 1
           (snd (initializeRedisStock (\<lambda>i. False) 1 (redis_lost oversold)))))
       = Inr (SaleInfo \<lparr>info_saleId = 1, info_name = ''Flash Sale Event'', info_status = ACTIVE,
                info_remainingStock = 0, info_totalStock = 1, info_startTime = 0, info_endTime = 1000\<rparr>)"
  by code_simp

text \<open>Such tables arise without any concurrency: \<^verbatim>\<open>resetSale\<close> to one unit, whose
  \<^verbatim>\<open>UPDATE\<close> returns and whose \<^verbatim>\<open>DELETE\<close> throws.\<close>

lemma oversold_by_failed_reset:
  "fst (resetSale (\<lambda>i. i = 1) 1 1 two_sold) = Inl DbError
   \<and> sales (snd (resetSale (\<lambda>i. i = 1) 1 1 two_sold)) 1 = sales oversold 1
   \<and> orders (snd (resetSale (\<lambda>i. i = 1) 1 1 two_sold)) = orders oversold"
  by code_simp

text \<open>Two of five units sold: 3 is reported, and the marks of \<^verbatim>\<open>a\<close> and \<^verbatim>\<open>b\<close> are
  restored.\<close>

theorem crash_recovery_witness:
  "getSaleStatusResponse (\<lambda>i. False) 20 1
        (snd (completeRedisRecovery (\<lambda>i. False) 1
           (snd (initializeRedisStock (\<lambda>i. False) 1 (redis_lost two_sold)))))
       = Inr (SaleInfo \<lparr>info_saleId = 1, info_name = ''Flash Sale Event'', info_status = ACTIVE,
                info_remainingStock = 3, info_totalStock = 5, info_startTime = 0, info_endTime = 1000\<rparr>)
   \<and> (1, ''a'') \<in> marks (snd (completeRedisRecovery (\<lambda>i. False) 1
           (snd (initializeRedisStock (\<lambda>i. False) 1 (redis_lost two_sold)))))
   \<and> (1, ''c'') \<notin> marks (snd (completeRedisRecovery (\<lambda>i. False) 1
           (snd (initializeRedisStock (\<lambda>i. False) 1 (redis_lost two_sold)))))
   \<and> fst (initializeRedisStock (\<lambda>i. False) 1 (redis_lost two_sold)) = Inr 3
   \<and> fst (completeRedisRecovery (\<lambda>i. False) 1
           (snd (initializeRedisStock (\<lambda>i. False) 1 (redis_lost two_sold)))) = Inr [''a'', ''b'']"
proof -
  let ?sl = "\<lparr>sale_name = ''Flash Sale Event'', start_time = 0, end_time = 1000, total_stock = 5\<rparr>"
  let ?i = "initializeRedisStock (\<lambda>i. False) 1 (redis_lost two_sold)"
  let ?r = "completeRedisRecovery (\<lambda>i. False) 1 (snd ?i)"
  have h1: "sales two_sold 1 = Some ?sl" by (simp add: two_sold_def fresh_sale_def)
  have i: "fst ?i = Inr 3" by code_simp
  then have h2: "?i = (Inr 3, snd ?i)" by (metis prod.collapse)
  have r: "fst ?r = Inr [''a'', ''b'']" by code_simp
  then have h3: "?r = (Inr [''a'', ''b''], snd ?r)" by (metis prod.collapse)
  have c: "count_success two_sold 1 = 2" by code_simp
  have o: "\<exists>x \<in> set (orders two_sold). sale_id x = 1 \<and> user_id x = ''a'' \<and> status x = Status_SUCCESS"
    "\<not> (\<exists>x \<in> set (orders two_sold). sale_id x = 1 \<and> user_id x = ''c'' \<and> status x = Status_SUCCESS)"
    by code_simp+
  from crash_recovery[OF h1 h2 h3, of "\<lambda>i. False" 20] i r c o show ?thesis
    by (simp add: getSaleStatus.simps)
qed

end
